theory Spec2Isabelle
  imports Main "HOL-Library.AList" "HOL-Library.Multiset"
begin

text \<open>
  The offer tracker (\<open>src/offerTracker.js\<close>), the check cycle and its scheduler
  (\<open>src/index.js\<close>) and the coordinator client (\<open>robosatsClient.js\<close>) of the RoboSats
  notifier, as functions on an explicit state. Time (\<open>Date.now()\<close>), the answers of the
  coordinators and of the notifier, and the date parser of the JavaScript engine are
  inputs. Code that runs without an \<open>await\<close> reads one value of the clock.
\<close>

section \<open>JavaScript values held by the offer tracker\<close>

text \<open>
  Offer identifiers are keys of a JavaScript \<open>Map\<close>. The API delivers integers; a key
  read back from the data file went through \<open>parseInt\<close> and is an integer or \<open>NaN\<close>;
  a string key is what a caller could pass to \<open>markAsSeen\<close>. \<open>Map\<close> compares keys with
  SameValueZero, so the number 7 and the string "7" are different keys and \<open>NaN\<close> is
  equal to itself: constructor equality.
\<close>

datatype jsid = INum int | IStr string | INaN

text \<open>
  The values \<open>expiresAt\<close> takes: a number of milliseconds, \<open>NaN\<close> (the time value of an
  invalid \<open>Date\<close>) or \<open>null\<close> (what \<open>JSON.stringify\<close> writes for \<open>NaN\<close>).
\<close>

datatype jstime = TNum int | TNaN | TNull

text \<open>\<open>expiresAt <= now\<close>: a comparison with \<open>NaN\<close> is false, \<open>null\<close> converts to 0.\<close>

fun js_le :: "jstime \<Rightarrow> int \<Rightarrow> bool" where
  "js_le (TNum t) now = (t \<le> now)"
| "js_le TNaN now = False"
| "js_le TNull now = (0 \<le> now)"

text \<open>What a JavaScript function hands back to its caller, where the model needs it.\<close>

datatype jsvalue = Undefined | Number int

datatype error = ENOENT | EIO | ESyntax | INVALID_RESPONSE | HttpStatus nat | NetworkFailure
  | NotifierFailure

datatype 'a completion = Returned 'a | Threw error

text \<open>The value stored per offer: \<open>{ expiresAt, messageId, sentAt }\<close>, \<open>None\<close> for \<open>null\<close>.\<close>

record tracked =
  expiresAt :: jstime
  messageId :: "string option"
  sentAt :: "int option"

text \<open>
  An offer as a coordinator lists it. Only the fields the tracker and the check cycle read
  are kept; \<open>expires_at\<close> is \<open>None\<close> when the field is absent. The field \<open>id\<close> of the
  source is \<open>offerId\<close> here (\<open>id\<close> is the identity function of HOL).
\<close>

record offer =
  offerId :: jsid
  coordinator :: string
  expires_at :: "string option"

section \<open>Numbers as property keys, and \<open>parseInt\<close>\<close>

definition digit_char :: "nat \<Rightarrow> char" where
  "digit_char d = ''0123456789'' ! d"

function nat_to_dec :: "nat \<Rightarrow> string" where
  "nat_to_dec n = (if n < 10 then [digit_char n] else nat_to_dec (n div 10) @ [digit_char (n mod 10)])"
  by pat_completeness auto
termination
  by (relation "measure (\<lambda>n. n)") auto

declare nat_to_dec.simps [simp del]

text \<open>
  \<open>Number::toString\<close> of an integer, as \<open>obj[offerId] = value\<close> applies it to a numeric
  key. JavaScript prints plain decimal digits for integers below \<open>10^21\<close> in absolute
  value; the model is that of those integers.
\<close>

definition number_to_string :: "int \<Rightarrow> string" where
  "number_to_string n = (if n < 0 then CHR ''-'' # nat_to_dec (nat (- n)) else nat_to_dec (nat n))"

fun property_key :: "jsid \<Rightarrow> string" where
  "property_key (INum n) = number_to_string n"
| "property_key (IStr s) = s"
| "property_key INaN = ''NaN''"

text \<open>The value of a digit in radix 10 or 16, \<open>None\<close> for every other character.\<close>

fun position :: "char \<Rightarrow> string \<Rightarrow> nat \<Rightarrow> nat option" where
  "position c [] i = None"
| "position c (x # xs) i = (if c = x then Some i else position c xs (Suc i))"

definition digit_of :: "nat \<Rightarrow> char \<Rightarrow> nat option" where
  "digit_of radix c =
     (case position c ''0123456789'' 0 of
        Some d \<Rightarrow> Some d
      | None \<Rightarrow>
          if radix = 16
          then (case position c ''abcdef'' 10 of
                  Some d \<Rightarrow> Some d
                | None \<Rightarrow> position c ''ABCDEF'' 10)
          else None)"

text \<open>
  The digits \<open>parseInt\<close> reads: the longest prefix of digits of the radix. The result is
  the number read so far and whether any digit was read.
\<close>

fun read_digits :: "nat \<Rightarrow> string \<Rightarrow> nat \<Rightarrow> bool \<Rightarrow> nat \<times> bool" where
  "read_digits radix [] acc seen = (acc, seen)"
| "read_digits radix (c # cs) acc seen =
     (case digit_of radix c of
        None \<Rightarrow> (acc, seen)
      | Some d \<Rightarrow> read_digits radix cs (radix * acc + d) True)"

definition is_space :: "char \<Rightarrow> bool" where
  "is_space c = (c \<in> set [CHR '' '', CHR 0x09, CHR 0x0A, CHR 0x0B, CHR 0x0C, CHR 0x0D])"

text \<open>
  \<open>parseInt(s)\<close> with no radix: leading white space is skipped, a sign is read, a prefix
  \<open>0x\<close> or \<open>0X\<close> selects radix 16, and the longest prefix of digits is the value; with no
  digit the result is \<open>NaN\<close>, here \<open>None\<close>.
\<close>

definition parseInt :: "string \<Rightarrow> int option" where
  "parseInt s =
     (let s1 = dropWhile is_space s;
          neg = (case s1 of [] \<Rightarrow> False | c # _ \<Rightarrow> c = CHR ''-'');
          s2 = (case s1 of [] \<Rightarrow> [] | c # cs \<Rightarrow> if c = CHR ''-'' then cs else if c = CHR ''+'' then cs else s1);
          hex = (case s2 of c # x # _ \<Rightarrow> c = CHR ''0'' \<and> (x = CHR ''x'' \<or> x = CHR ''X'') | _ \<Rightarrow> False);
          (v, seen) = (if hex then read_digits 16 (drop 2 s2) 0 False else read_digits 10 s2 0 False)
      in if seen then Some (if neg then - int v else int v) else None)"

text \<open>The key under which \<open>initialize\<close> stores an entry of the file: \<open>parseInt(offerId)\<close>.\<close>

definition key_of_property :: "string \<Rightarrow> jsid" where
  "key_of_property s = (case parseInt s of Some n \<Rightarrow> INum n | None \<Rightarrow> INaN)"

text \<open>
  An array index is the canonical decimal string of an integer from 0 to \<open>2^32 - 2\<close>.
  The own properties of an object are listed with the array indices first, in ascending
  order, then the other keys in the order they were created.
\<close>

definition array_index :: "string \<Rightarrow> nat option" where
  "array_index s =
     (case read_digits 10 s 0 False of
        (v, seen) \<Rightarrow> if seen \<and> s = nat_to_dec v \<and> v \<le> 4294967294 then Some v else None)"

definition index_rank :: "string \<times> 'v \<Rightarrow> nat" where
  "index_rank p = (case array_index (fst p) of Some n \<Rightarrow> n | None \<Rightarrow> 0)"

definition own_property_order :: "(string \<times> 'v) list \<Rightarrow> (string \<times> 'v) list" where
  "own_property_order obj =
     sort_key index_rank (filter (\<lambda>p. array_index (fst p) \<noteq> None) obj)
     @ filter (\<lambda>p. array_index (fst p) = None) obj"

section \<open>The offer tracker (\<open>offerTracker.js\<close>)\<close>

text \<open>
  What the data file \<open>seen_offers.json\<close> can hold after \<open>JSON.parse\<close>: an array of
  identifiers (the oldest format) or an object whose values are numbers (the old format),
  objects (the current format) or anything else, which \<open>initialize\<close> skips.
\<close>

datatype fval = FNumber int | FObject tracked | FOther

datatype fdoc = DArray "jsid list" | DObject "(string \<times> fval) list"

text \<open>
  The file is missing (\<open>readFile\<close> fails with \<open>ENOENT\<close>), cannot be read or parsed
  (another error), or holds a document.
\<close>

datatype file_state = Missing | Unreadable error | Content fdoc

text \<open>
  The calls the cycle and the tracker make on their surroundings, in the order made:
  the trace is the observable behaviour of a run. \<open>SendNotification\<close> carries the offer
  whose message was sent and what the notifier answered (\<open>None\<close>: the call threw);
  \<open>DeleteMessage\<close> is \<open>whatsappClient.deleteMessage\<close>.
\<close>

datatype event =
    MapDelete jsid
  | MapSet jsid
  | WriteFile
  | LogCleaned nat
  | GetOffers
  | SendNotification offer "string option"
  | DeleteMessage string

text \<open>
  The tracker object and the file it owns. \<open>writable\<close> says whether \<open>fs.writeFile\<close>
  succeeds. Every \<open>seenOffers.set\<close> of the class stores an object, so the values of the
  map are objects: the branch \<open>typeof value === 'number'\<close> of \<open>cleanupExpiredOffers\<close> and
  \<open>getMessageId\<close> is never taken and has no counterpart here.
\<close>

record world =
  seenOffers :: "(jsid \<times> tracked) list"
  dataFile :: file_state
  writable :: bool
  trace :: "event list"

definition defaultMaxAge :: int where
  "defaultMaxAge = 24 * 60 * 60 * 1000"

text \<open>
  \<open>Map.set\<close> replaces the value of a key in place or appends a new key, which is
  \<open>AList.update\<close>; \<open>Map.delete\<close> is \<open>AList.delete\<close>.
\<close>

definition map_set :: "jsid \<Rightarrow> tracked \<Rightarrow> world \<Rightarrow> world" where
  "map_set k v w = w\<lparr>seenOffers := AList.update k v (seenOffers w), trace := trace w @ [MapSet k]\<rparr>"

definition map_delete :: "jsid \<Rightarrow> world \<Rightarrow> world" where
  "map_delete k w = w\<lparr>seenOffers := AList.delete k (seenOffers w), trace := trace w @ [MapDelete k]\<rparr>"

text \<open>\<open>JSON.stringify\<close> writes \<open>null\<close> for \<open>NaN\<close>.\<close>

definition stringify_value :: "tracked \<Rightarrow> tracked" where
  "stringify_value v = v\<lparr>expiresAt := (case expiresAt v of TNaN \<Rightarrow> TNull | t \<Rightarrow> t)\<rparr>"

text \<open>\<open>obj[offerId] = value\<close> for every entry of the map, in the map's order.\<close>

definition to_object :: "(jsid \<times> tracked) list \<Rightarrow> (string \<times> fval) list" where
  "to_object m = foldl (\<lambda>obj (k, v). AList.update (property_key k) (FObject (stringify_value v)) obj) [] m"

definition save :: "world \<Rightarrow> unit completion \<times> world" where
  "save w =
     (let obj = to_object (seenOffers w);
          w1 = w\<lparr>trace := trace w @ [WriteFile]\<rparr>
      in if writable w
         then (Returned (), w1\<lparr>dataFile := Content (DObject (own_property_order obj))\<rparr>)
         else (Threw EIO, w1))"

text \<open>
  The loop of \<open>cleanupExpiredOffers\<close> over the entries of the map. Deleting the entry
  under the iterator does not disturb the iteration, so the loop runs over the entries
  the map had at the start.
\<close>

fun cleanup_loop :: "int \<Rightarrow> (jsid \<times> tracked) list \<Rightarrow> world \<Rightarrow> nat \<Rightarrow> world \<times> nat" where
  "cleanup_loop now [] w removedCount = (w, removedCount)"
| "cleanup_loop now ((k, v) # es) w removedCount =
     (if js_le (expiresAt v) now
      then cleanup_loop now es (map_delete k w) (removedCount + 1)
      else cleanup_loop now es w removedCount)"

text \<open>
  \<open>now\<close> is what \<open>Date.now()\<close> returns. The function has no \<open>return\<close> statement: it
  completes with \<open>undefined\<close>, or throws what \<open>save\<close> throws.
\<close>

definition cleanupExpiredOffers :: "int \<Rightarrow> world \<Rightarrow> jsvalue completion \<times> world" where
  "cleanupExpiredOffers now w =
     (case cleanup_loop now (seenOffers w) w 0 of
        (w1, removedCount) \<Rightarrow>
          if removedCount > 0
          then (case save (w1\<lparr>trace := trace w1 @ [LogCleaned removedCount]\<rparr>) of
                  (Returned u, w2) \<Rightarrow> (Returned Undefined, w2)
                | (Threw e, w2) \<Rightarrow> (Threw e, w2))
          else (Returned Undefined, w1))"

definition isNew :: "jsid \<Rightarrow> world \<Rightarrow> bool" where
  "isNew k w = (map_of (seenOffers w) k = None)"

text \<open>
  \<open>new Date(s).getTime()\<close> for a string \<open>s\<close>. \<open>dateParse\<close> is the date parser of the
  JavaScript engine, \<open>None\<close> where it does not recognise the string. The constructor
  does not throw on such a string: it builds an invalid date, whose time value is \<open>NaN\<close>.
\<close>

definition date_getTime :: "(string \<Rightarrow> int option) \<Rightarrow> string \<Rightarrow> jstime completion" where
  "date_getTime dateParse s = Returned (case dateParse s of Some t \<Rightarrow> TNum t | None \<Rightarrow> TNaN)"

text \<open>
  \<open>markAsSeen(offer, messageId = null)\<close>. \<open>if (offer.expires_at)\<close> is false for an absent
  field and for the empty string. The \<open>catch\<close> branch is the \<open>Threw\<close> case.
\<close>

definition markAsSeen :: "(string \<Rightarrow> int option) \<Rightarrow> int \<Rightarrow> offer \<Rightarrow> string option \<Rightarrow> world \<Rightarrow> world" where
  "markAsSeen dateParse now off mid w =
     (let expires =
            (case expires_at off of
               None \<Rightarrow> TNum (now + defaultMaxAge)
             | Some s \<Rightarrow>
                 if s = [] then TNum (now + defaultMaxAge)
                 else (case date_getTime dateParse s of
                         Returned t \<Rightarrow> t
                       | Threw e \<Rightarrow> TNum (now + defaultMaxAge)))
      in map_set (offerId off) \<lparr>expiresAt = expires, messageId = mid, sentAt = Some now\<rparr> w)"

definition getNewOffers :: "offer list \<Rightarrow> world \<Rightarrow> offer list" where
  "getNewOffers offers w = filter (\<lambda>off. isNew (offerId off) w) offers"

definition addOffer :: "(string \<Rightarrow> int option) \<Rightarrow> int \<Rightarrow> offer \<Rightarrow> string option \<Rightarrow> world \<Rightarrow> unit completion \<times> world" where
  "addOffer dateParse now off mid w = save (markAsSeen dateParse now off mid w)"

definition addOffers :: "(string \<Rightarrow> int option) \<Rightarrow> int \<Rightarrow> offer list \<Rightarrow> world \<Rightarrow> unit completion \<times> world" where
  "addOffers dateParse now offers w = save (foldl (\<lambda>w' off. markAsSeen dateParse now off None w') w offers)"

definition getTrackedOfferIds :: "world \<Rightarrow> jsid set" where
  "getTrackedOfferIds w = set (map fst (seenOffers w))"

definition getMessageId :: "jsid \<Rightarrow> world \<Rightarrow> string option" where
  "getMessageId k w = (case map_of (seenOffers w) k of None \<Rightarrow> None | Some v \<Rightarrow> messageId v)"

definition removeOffer :: "jsid \<Rightarrow> world \<Rightarrow> unit completion \<times> world" where
  "removeOffer k w = save (map_delete k w)"

text \<open>
  \<open>initialize\<close>. \<open>JSON.parse\<close> keeps the last value of a repeated key;
  \<open>Object.entries\<close> lists the own properties in their order. \<open>value.messageId || null\<close>
  turns the empty string into \<open>null\<close>, \<open>value.sentAt || null\<close> turns 0 into \<open>null\<close>.
\<close>

definition json_parse_object :: "(string \<times> fval) list \<Rightarrow> (string \<times> fval) list" where
  "json_parse_object es = foldl (\<lambda>obj (k, v). AList.update k v obj) [] es"

definition or_null_string :: "string option \<Rightarrow> string option" where
  "or_null_string x = (case x of None \<Rightarrow> None | Some s \<Rightarrow> if s = [] then None else Some s)"

definition or_null_number :: "int option \<Rightarrow> int option" where
  "or_null_number x = (case x of None \<Rightarrow> None | Some n \<Rightarrow> if n = 0 then None else Some n)"

fun load_entry :: "world \<Rightarrow> string \<times> fval \<Rightarrow> world" where
  "load_entry w (k, FNumber n) =
     map_set (key_of_property k) \<lparr>expiresAt = TNum n, messageId = None, sentAt = None\<rparr> w"
| "load_entry w (k, FObject r) =
     map_set (key_of_property k)
       \<lparr>expiresAt = expiresAt r, messageId = or_null_string (messageId r),
        sentAt = or_null_number (sentAt r)\<rparr> w"
| "load_entry w (k, FOther) = w"

fun is_number :: "fval \<Rightarrow> bool" where
  "is_number (FNumber n) = True"
| "is_number v = False"

text \<open>
  The body of the \<open>try\<close> block. \<open>t_load\<close> is \<open>Date.now()\<close> at the migration of the array
  format, \<open>t_clean\<close> is \<open>Date.now()\<close> inside the closing \<open>cleanupExpiredOffers\<close>.
\<close>

definition initialize_try :: "int \<Rightarrow> int \<Rightarrow> world \<Rightarrow> unit completion \<times> world" where
  "initialize_try t_load t_clean w =
     (case dataFile w of
        Missing \<Rightarrow> (Threw ENOENT, w)
      | Unreadable e \<Rightarrow> (Threw e, w)
      | Content (DArray ids) \<Rightarrow>
          (let w1 = foldl (\<lambda>w' k. map_set k
                       \<lparr>expiresAt = TNum (t_load + defaultMaxAge), messageId = None, sentAt = None\<rparr> w') w ids
           in case save w1 of
                (Threw e, w2) \<Rightarrow> (Threw e, w2)
              | (Returned u, w2) \<Rightarrow>
                  (case cleanupExpiredOffers t_clean w2 of
                     (Threw e, w3) \<Rightarrow> (Threw e, w3)
                   | (Returned r, w3) \<Rightarrow> (Returned (), w3)))
      | Content (DObject es) \<Rightarrow>
          (let parsed = own_property_order (json_parse_object es);
               w1 = foldl load_entry w parsed;
               needsMigration = list_ex is_number (map snd parsed)
           in case (if needsMigration then save w1 else (Returned (), w1)) of
                (Threw e, w2) \<Rightarrow> (Threw e, w2)
              | (Returned u, w2) \<Rightarrow>
                  (case cleanupExpiredOffers t_clean w2 of
                     (Threw e, w3) \<Rightarrow> (Threw e, w3)
                   | (Returned r, w3) \<Rightarrow> (Returned (), w3))))"

text \<open>The \<open>catch\<close>: \<open>ENOENT\<close> starts from an empty map, every other error is thrown on.\<close>

definition initialize :: "int \<Rightarrow> int \<Rightarrow> world \<Rightarrow> unit completion \<times> world" where
  "initialize t_load t_clean w =
     (case initialize_try t_load t_clean w of
        (Threw e, w1) \<Rightarrow> if e = ENOENT then (Returned (), w1\<lparr>seenOffers := []\<rparr>) else (Threw e, w1)
      | (Returned u, w1) \<Rightarrow> (Returned u, w1))"

text \<open>A tracker object as the constructor leaves it, beside the file on disk.\<close>

definition fresh_tracker :: "file_state \<Rightarrow> bool \<Rightarrow> world" where
  "fresh_tracker f wr = \<lparr>seenOffers = [], dataFile = f, writable = wr, trace = []\<rparr>"

section \<open>The check cycle (\<open>index.js\<close>)\<close>

text \<open>
  What one run of \<open>checkForNewOffersInternal\<close> meets: whether
  \<open>validateNotificationConfig\<close> passes, what \<open>shouldAbortCheck\<close> holds at each of the
  places it is read (0: on entry, 1: after the cleanup, 2: after the fetch, \<open>3 + i\<close>:
  before the notification of the new offer number \<open>i\<close>), the clock at the cleanup and at
  \<open>addOffers\<close>, the array \<open>robosatsClient.getOffers()\<close> resolves to, and what
  \<open>whatsappClient.sendNotification\<close> answers to the call number \<open>i\<close>: the handle of
  the message sent, or \<open>None\<close> when it throws. The cycle uses what \<open>getOffers\<close>
  resolves to as an array (\<open>offers.filter\<close>); the client that returns an array catches
  the failure of every coordinator, so the call always resolves.
\<close>

record cycle_env =
  configValid :: bool
  aborted :: "nat \<Rightarrow> bool"
  dateNow_cleanup :: int
  getOffers_result :: "offer list"
  sendNotification :: "nat \<Rightarrow> offer \<Rightarrow> string option"
  dateNow_add :: int
  dateParse :: "string \<Rightarrow> int option"

datatype loop_exit = LoopDone | LoopAborted | LoopThrew error

text \<open>
  The loop \<open>for (const offer of newOffers)\<close>: the value \<open>sendNotification\<close> returns is
  not bound to anything; it shows only in the trace.
\<close>

fun send_loop :: "cycle_env \<Rightarrow> nat \<Rightarrow> offer list \<Rightarrow> world \<Rightarrow> loop_exit \<times> world" where
  "send_loop env i [] w = (LoopDone, w)"
| "send_loop env i (off # rest) w =
     (if aborted env (3 + i) then (LoopAborted, w)
      else (case sendNotification env i off of
              None \<Rightarrow> (LoopThrew NotifierFailure, w\<lparr>trace := trace w @ [SendNotification off None]\<rparr>)
            | Some h \<Rightarrow> send_loop env (i + 1) rest (w\<lparr>trace := trace w @ [SendNotification off (Some h)]\<rparr>)))"

datatype outcome = Aborted | ConfigError | CycleError error | NoNewOffers | Notified nat

definition checkForNewOffersInternal :: "cycle_env \<Rightarrow> world \<Rightarrow> outcome \<times> world" where
  "checkForNewOffersInternal env w =
     (if aborted env 0 then (Aborted, w)
      else if configValid env then
        (case cleanupExpiredOffers (dateNow_cleanup env) w of
           (Threw e, w1) \<Rightarrow> (CycleError e, w1)
         | (Returned u, w1) \<Rightarrow>
             if aborted env 1 then (Aborted, w1)
             else
               (let w2 = w1\<lparr>trace := trace w1 @ [GetOffers]\<rparr>;
                    allOffers = getOffers_result env
                in if aborted env 2 then (Aborted, w2)
                   else
                     (let newOffers = getNewOffers allOffers w2
                      in if length newOffers > 0
                         then (case send_loop env 0 newOffers w2 of
                                 (LoopAborted, w3) \<Rightarrow> (Aborted, w3)
                               | (LoopThrew e, w3) \<Rightarrow> (CycleError e, w3)
                               | (LoopDone, w3) \<Rightarrow>
                                   (case addOffers (dateParse env) (dateNow_add env) newOffers w3 of
                                      (Threw e, w4) \<Rightarrow> (CycleError e, w4)
                                    | (Returned u', w4) \<Rightarrow> (Notified (length newOffers), w4)))
                         else (NoNewOffers, w2))))
      else (ConfigError, w))"

section \<open>The scheduler (\<open>index.js\<close>)\<close>

text \<open>
  The module variables of \<open>index.js\<close> and the tracker. \<open>inFlight\<close> is not a variable of
  the program: it counts the calls of \<open>checkForNewOffersInternal\<close> that have started and
  not yet reached the \<open>finally\<close> of \<open>checkForNewOffers\<close>.
\<close>

record system =
  checkIntervalSet :: bool
  nextCheckTime :: "int option"
  isCheckInProgress :: bool
  shouldAbortCheck :: bool
  inFlight :: nat
  tracker :: world

text \<open>
  \<open>checkForNewOffers\<close> up to its first \<open>await\<close>: the guard, the two flags, and the call.
  No other code runs in between.
\<close>

definition checkForNewOffers_begin :: "system \<Rightarrow> system" where
  "checkForNewOffers_begin s =
     (if isCheckInProgress s then s
      else s\<lparr>isCheckInProgress := True, shouldAbortCheck := False, inFlight := inFlight s + 1\<rparr>)"

text \<open>
  The rest of \<open>checkForNewOffers\<close>: the cycle has run against the tracker and the
  \<open>finally\<close> clears the flag. What the cycle did to the tracker is applied here in one
  step; the cycle itself decides nothing from the module variables but the abort flag,
  whose readings are part of \<open>cycle_env\<close>.
\<close>

definition checkForNewOffers_end :: "cycle_env \<Rightarrow> system \<Rightarrow> system" where
  "checkForNewOffers_end env s =
     s\<lparr>tracker := snd (checkForNewOffersInternal env (tracker s)),
       isCheckInProgress := False, inFlight := inFlight s - 1\<rparr>"

text \<open>The callback of \<open>setInterval\<close>; \<open>interval\<close> is \<open>config.CHECK_INTERVAL_MS\<close>.\<close>

definition timer_fire :: "int \<Rightarrow> int \<Rightarrow> system \<Rightarrow> system" where
  "timer_fire now interval s = checkForNewOffers_begin (s\<lparr>nextCheckTime := Some (now + interval)\<rparr>)"

definition startCheckInterval :: "int \<Rightarrow> int \<Rightarrow> system \<Rightarrow> system" where
  "startCheckInterval now interval s = s\<lparr>checkIntervalSet := True, nextCheckTime := Some (now + interval)\<rparr>"

definition stopCheckInterval :: "system \<Rightarrow> system" where
  "stopCheckInterval s =
     (if checkIntervalSet s
      then s\<lparr>checkIntervalSet := False, nextCheckTime := None,
             shouldAbortCheck := (if isCheckInProgress s then True else shouldAbortCheck s)\<rparr>
      else s)"

definition initial_system :: "world \<Rightarrow> system" where
  "initial_system w =
     \<lparr>checkIntervalSet = False, nextCheckTime = None, isCheckInProgress = False,
      shouldAbortCheck = False, inFlight = 0, tracker = w\<rparr>"

text \<open>
  The states the process can be in: the timer fires only while it is set; \<open>start\<close> and
  the \<open>configChanged\<close> handler call \<open>checkForNewOffers\<close> directly; a cycle that is in
  flight can finish.
\<close>

inductive reachable :: "system \<Rightarrow> bool" where
  r_init: "reachable (initial_system w)"
| r_timer: "reachable s \<Longrightarrow> checkIntervalSet s \<Longrightarrow> reachable (timer_fire now interval s)"
| r_call: "reachable s \<Longrightarrow> reachable (checkForNewOffers_begin s)"
| r_finish: "reachable s \<Longrightarrow> 0 < inFlight s \<Longrightarrow> reachable (checkForNewOffers_end env s)"
| r_start: "reachable s \<Longrightarrow> reachable (startCheckInterval now interval s)"
| r_stop: "reachable s \<Longrightarrow> reachable (stopCheckInterval s)"

section \<open>The coordinator client (\<open>robosatsClient.js\<close>)\<close>

text \<open>
  What \<open>axiosInstance.get\<close> of one coordinator's book ends in: a rejection, or a body
  that is an array of offers or something else.
\<close>

datatype payload = NotAnArray | Listing "offer list"

datatype response = Rejected error | Body payload

definition getOrderBookFromCoordinator :: "(string \<Rightarrow> response) \<Rightarrow> string \<Rightarrow> offer list completion" where
  "getOrderBookFromCoordinator http c =
     (case http c of
        Rejected e \<Rightarrow> Threw e
      | Body NotAnArray \<Rightarrow> Threw INVALID_RESPONSE
      | Body (Listing os) \<Rightarrow> Returned os)"

text \<open>What each promise given to \<open>Promise.allSettled\<close> resolves to.\<close>

datatype settled = Success string "offer list" | Failure string error

definition fetch_coordinator :: "(string \<Rightarrow> response) \<Rightarrow> string \<Rightarrow> settled" where
  "fetch_coordinator http c =
     (case getOrderBookFromCoordinator http c of
        Returned os \<Rightarrow> Success c os
      | Threw e \<Rightarrow> Failure c e)"

text \<open>
  The loop over the results: \<open>allOffers\<close> and \<open>reachableCoordinators\<close>. An offer is
  tagged with the coordinator it came from. The mapped function catches every error, so
  no result is \<open>rejected\<close>, and the offers of a success are an array by construction:
  those two checks of the loop never fire.
\<close>

fun collect_results :: "settled list \<Rightarrow> offer list \<Rightarrow> string set \<Rightarrow> offer list \<times> string set" where
  "collect_results [] allOffers reachableCoordinators = (allOffers, reachableCoordinators)"
| "collect_results (Failure c e # rs) allOffers reachableCoordinators =
     collect_results rs allOffers reachableCoordinators"
| "collect_results (Success c os # rs) allOffers reachableCoordinators =
     collect_results rs (allOffers @ map (\<lambda>off. off\<lparr>coordinator := c\<rparr>) os)
       (insert c reachableCoordinators)"

definition getOrderBook :: "(string \<Rightarrow> response) \<Rightarrow> string list \<Rightarrow> offer list \<times> string set" where
  "getOrderBook http coordinators = collect_results (map (fetch_coordinator http) coordinators) [] {}"

text \<open>
  The earlier client kept beside it: every failure and every body that is not an array
  become the empty array, and no set of reachable coordinators is returned.
\<close>

definition getOrderBookFromCoordinator_legacy :: "(string \<Rightarrow> response) \<Rightarrow> string \<Rightarrow> offer list" where
  "getOrderBookFromCoordinator_legacy http c =
     (case http c of
        Rejected e \<Rightarrow> []
      | Body NotAnArray \<Rightarrow> []
      | Body (Listing os) \<Rightarrow> os)"

definition getOrderBook_legacy :: "(string \<Rightarrow> response) \<Rightarrow> string list \<Rightarrow> offer list" where
  "getOrderBook_legacy http coordinators =
     concat (map (\<lambda>c. map (\<lambda>off. off\<lparr>coordinator := c\<rparr>) (getOrderBookFromCoordinator_legacy http c)) coordinators)"

fun is_listing :: "response \<Rightarrow> bool" where
  "is_listing (Body (Listing os)) = True"
| "is_listing r = False"

section \<open>Vocabulary of the statements\<close>

text \<open>The entries of the map that \<open>expiresAt <= now\<close> holds for, and the others.\<close>

definition expired_entries :: "int \<Rightarrow> (jsid \<times> tracked) list \<Rightarrow> (jsid \<times> tracked) list" where
  "expired_entries now m = filter (\<lambda>p. js_le (expiresAt (snd p)) now) m"

definition live_entries :: "int \<Rightarrow> (jsid \<times> tracked) list \<Rightarrow> (jsid \<times> tracked) list" where
  "live_entries now m = filter (\<lambda>p. \<not> js_le (expiresAt (snd p)) now) m"

text \<open>What a run added to the trace.\<close>

definition new_events :: "world \<Rightarrow> world \<Rightarrow> event list" where
  "new_events before after = drop (length (trace before)) (trace after)"

fun is_send_of :: "jsid \<Rightarrow> event \<Rightarrow> bool" where
  "is_send_of k (SendNotification off (Some h)) = (offerId off = k)"
| "is_send_of k e = False"

fun is_send :: "event \<Rightarrow> bool" where
  "is_send (SendNotification off r) = True"
| "is_send e = False"

fun is_map_delete :: "event \<Rightarrow> bool" where
  "is_map_delete (MapDelete k) = True"
| "is_map_delete e = False"

fun is_delete_message :: "event \<Rightarrow> bool" where
  "is_delete_message (DeleteMessage h) = True"
| "is_delete_message e = False"

text \<open>A run that went through: it was not aborted and nothing threw.\<close>

fun completed :: "outcome \<Rightarrow> bool" where
  "completed NoNewOffers = True"
| "completed (Notified n) = True"
| "completed r = False"

text \<open>
  Identifiers that are integers, and those among them that JavaScript holds exactly and
  prints in plain decimal digits (the safe integers).
\<close>

fun is_int_key :: "jsid \<Rightarrow> bool" where
  "is_int_key (INum n) = True"
| "is_int_key k = False"

fun is_safe_int_key :: "jsid \<Rightarrow> bool" where
  "is_safe_int_key (INum n) = (\<bar>n\<bar> \<le> 9007199254740991)"
| "is_safe_int_key k = False"

text \<open>
  A record that \<open>JSON.stringify\<close> followed by the \<open>|| null\<close> of \<open>initialize\<close> gives back as
  it is: its expiry is not \<open>NaN\<close>, its message id is not the empty string and its
  \<open>sentAt\<close> is not 0.
\<close>

definition json_stable :: "tracked \<Rightarrow> bool" where
  "json_stable v = (expiresAt v \<noteq> TNaN \<and> messageId v \<noteq> Some [] \<and> sentAt v \<noteq> Some 0)"

text \<open>What \<open>initialize\<close> stores for one entry of the file.\<close>

fun reload :: "string \<times> fval \<Rightarrow> (jsid \<times> tracked) list" where
  "reload (k, FNumber n) = [(key_of_property k, \<lparr>expiresAt = TNum n, messageId = None, sentAt = None\<rparr>)]"
| "reload (k, FObject r) =
     [(key_of_property k, \<lparr>expiresAt = expiresAt r, messageId = or_null_string (messageId r),
        sentAt = or_null_number (sentAt r)\<rparr>)]"
| "reload (k, FOther) = []"

section \<open>Example inputs\<close>

text \<open>
  A tracker holding offer 5 (expired at time 100, message \<open>m5\<close>), offer 12 (expires at
  900, message \<open>m12\<close>) and offer 3 (stored with an invalid date), with no data file yet.
\<close>

definition ex_store :: world where
  "ex_store =
     \<lparr>seenOffers =
        [(INum 5, \<lparr>expiresAt = TNum 100, messageId = Some ''m5'', sentAt = Some 50\<rparr>),
         (INum 12, \<lparr>expiresAt = TNum 900, messageId = Some ''m12'', sentAt = Some 50\<rparr>),
         (INum 3, \<lparr>expiresAt = TNaN, messageId = None, sentAt = Some 50\<rparr>)],
      dataFile = Missing, writable = True, trace = []\<rparr>"

text \<open>
  The process after \<open>startCheckInterval\<close> at time 0 and the first firing of the timer,
  a minute later: a cycle is in flight.
\<close>

definition ex_running :: system where
  "ex_running = timer_fire 60000 60000 (startCheckInterval 0 60000 (initial_system ex_store))"

text \<open>
  Three coordinators: one answers with an empty array, one with a body that is not an
  array, one with HTTP status 500.
\<close>

definition ex_http :: "string \<Rightarrow> response" where
  "ex_http c =
     (if c = ''alice'' then Body (Listing [])
      else if c = ''bazaar'' then Body NotAnArray
      else Rejected (HttpStatus 500))"

text \<open>
  A date parser that knows three ISO strings, 100, 250 and 900 milliseconds after the
  epoch, and rejects every other string.
\<close>

definition ex_dateParse :: "string \<Rightarrow> int option" where
  "ex_dateParse s =
     (if s = ''1970-01-01T00:00:00.900Z'' then Some 900
      else if s = ''1970-01-01T00:00:00.250Z'' then Some 250
      else if s = ''1970-01-01T00:00:00.100Z'' then Some 100
      else None)"

text \<open>
  Offer 7 as two coordinators list it, offer 9 that expires at 250, and offer 8 whose
  \<open>expires_at\<close> is not a date.
\<close>

definition ex_offer7 :: offer where
  "ex_offer7 = \<lparr>offerId = INum 7, coordinator = ''alice'', expires_at = Some ''1970-01-01T00:00:00.900Z''\<rparr>"

definition ex_offer7b :: offer where
  "ex_offer7b = \<lparr>offerId = INum 7, coordinator = ''bazaar'', expires_at = None\<rparr>"

definition ex_offer9 :: offer where
  "ex_offer9 = \<lparr>offerId = INum 9, coordinator = ''alice'', expires_at = Some ''1970-01-01T00:00:00.250Z''\<rparr>"

definition ex_offer8 :: offer where
  "ex_offer8 = \<lparr>offerId = INum 8, coordinator = ''alice'', expires_at = Some ''soon''\<rparr>"

text \<open>
  A cycle at time \<open>now\<close> that meets a valid configuration, no abort, the given offers, a
  notifier that accepts every message and answers the handle \<open>m\<close> followed by the offer's
  id, and reaches \<open>addOffers\<close> one millisecond later.
\<close>

definition ex_env :: "int \<Rightarrow> offer list \<Rightarrow> cycle_env" where
  "ex_env now offers =
     \<lparr>configValid = True, aborted = (\<lambda>i. False), dateNow_cleanup = now,
      getOffers_result = offers,
      sendNotification = (\<lambda>i off. Some (''m'' @ property_key (offerId off))),
      dateNow_add = now + 1, dateParse = ex_dateParse\<rparr>"

text \<open>
  A tracker whose identifiers are integers (offer 5 expired at 100), and one that was
  given a string as identifier.
\<close>

definition ex_ints :: world where
  "ex_ints =
     \<lparr>seenOffers =
        [(INum 12, \<lparr>expiresAt = TNum 900, messageId = Some ''m12'', sentAt = Some 50\<rparr>),
         (INum 5, \<lparr>expiresAt = TNum 100, messageId = Some ''m5'', sentAt = Some 50\<rparr>),
         (INum (- 4), \<lparr>expiresAt = TNum 950, messageId = None, sentAt = None\<rparr>)],
      dataFile = Missing, writable = True, trace = []\<rparr>"

definition ex_named :: world where
  "ex_named =
     \<lparr>seenOffers = [(IStr ''abc'', \<lparr>expiresAt = TNum 900, messageId = None, sentAt = Some 50\<rparr>)],
      dataFile = Missing, writable = True, trace = []\<rparr>"

section \<open>Properties of the tracker\<close>

text \<open>The equations that evaluate keys and the order of an object's properties.\<close>

lemmas eval_keys = to_object_def stringify_value_def number_to_string_def nat_to_dec.simps
  digit_char_def own_property_order_def array_index_def index_rank_def digit_of_def

subsection \<open>The cleanup loop\<close>

lemma cleanup_loop_seen:
  "seenOffers (fst (cleanup_loop now es w n)) =
     filter (\<lambda>p. fst p \<notin> fst ` {q \<in> set es. js_le (expiresAt (snd q)) now}) (seenOffers w)"
proof (induction es arbitrary: w n)
  case Nil
  then show ?case by simp
next
  case (Cons e es)
  obtain k v where e: "e = (k, v)" by (cases e)
  show ?case
  proof (cases "js_le (expiresAt v) now")
    case True
    have "{q \<in> set (e # es). js_le (expiresAt (snd q)) now}
        = insert (k, v) {q \<in> set es. js_le (expiresAt (snd q)) now}"
      using True e by auto
    then show ?thesis using True e Cons.IH [of "map_delete k w" "n + 1"]
      by (simp add: map_delete_def AList.delete_eq) (rule filter_cong, auto)
  next
    case False
    have "{q \<in> set (e # es). js_le (expiresAt (snd q)) now}
        = {q \<in> set es. js_le (expiresAt (snd q)) now}"
      using False e by auto
    then show ?thesis using False e Cons.IH [of w n] by simp
  qed
qed

lemma cleanup_loop_count:
  "snd (cleanup_loop now es w n) = n + length (filter (\<lambda>p. js_le (expiresAt (snd p)) now) es)"
  by (induction es arbitrary: w n) auto

lemma cleanup_loop_trace:
  "trace (fst (cleanup_loop now es w n)) =
     trace w @ map (\<lambda>p. MapDelete (fst p)) (filter (\<lambda>p. js_le (expiresAt (snd p)) now) es)"
  by (induction es arbitrary: w n) (auto simp: map_delete_def)

lemma cleanup_loop_dataFile:
  "dataFile (fst (cleanup_loop now es w n)) = dataFile w"
  by (induction now es w n rule: cleanup_loop.induct) (simp_all add: map_delete_def)

lemma cleanup_loop_writable:
  "writable (fst (cleanup_loop now es w n)) = writable w"
  by (induction now es w n rule: cleanup_loop.induct) (simp_all add: map_delete_def)

text \<open>With distinct keys, dropping the keys of the entries that satisfy \<open>P\<close> drops those entries.\<close>

lemma filter_expired_keys:
  assumes "distinct (map fst m)"
  shows "filter (\<lambda>p. fst p \<notin> fst ` {q \<in> set m. P q}) m = filter (\<lambda>p. \<not> P p) m"
proof (rule filter_cong)
  fix p assume p: "p \<in> set m"
  have "fst p \<in> fst ` {q \<in> set m. P q} \<longleftrightarrow> P p"
  proof
    assume "fst p \<in> fst ` {q \<in> set m. P q}"
    then obtain q where q: "q \<in> set m" "P q" "fst q = fst p" by auto
    with assms p have "q = p" by (metis eq_key_imp_eq_value prod.collapse)
    with q show "P p" by simp
  next
    assume "P p" with p show "fst p \<in> fst ` {q \<in> set m. P q}" by auto
  qed
  then show "(fst p \<notin> fst ` {q \<in> set m. P q}) = (\<not> P p)" by simp
qed simp

lemma cleanup_loop_all:
  assumes "distinct (map fst (seenOffers w))"
  shows "cleanup_loop now (seenOffers w) w 0 =
     (w\<lparr>seenOffers := live_entries now (seenOffers w),
        trace := trace w @ map (\<lambda>p. MapDelete (fst p)) (expired_entries now (seenOffers w))\<rparr>,
      length (expired_entries now (seenOffers w)))"
proof -
  obtain w1 n where r: "cleanup_loop now (seenOffers w) w 0 = (w1, n)"
    by (cases "cleanup_loop now (seenOffers w) w 0")
  have "seenOffers w1 = live_entries now (seenOffers w)"
    using cleanup_loop_seen [of now "seenOffers w" w 0] filter_expired_keys [OF assms] r
    by (simp add: live_entries_def)
  moreover have "trace w1 = trace w @ map (\<lambda>p. MapDelete (fst p)) (expired_entries now (seenOffers w))"
    using cleanup_loop_trace [of now "seenOffers w" w 0] r by (simp add: expired_entries_def)
  moreover have "dataFile w1 = dataFile w"
    using cleanup_loop_dataFile [of now "seenOffers w" w 0] r by simp
  moreover have "writable w1 = writable w"
    using cleanup_loop_writable [of now "seenOffers w" w 0] r by simp
  moreover have "n = length (expired_entries now (seenOffers w))"
    using cleanup_loop_count [of now "seenOffers w" w 0] r by (simp add: expired_entries_def)
  ultimately show ?thesis using r by simp
qed

text \<open>
  C9, as the code has it. For a map (distinct keys), \<open>cleanupExpiredOffers\<close> leaves
  exactly the entries for which \<open>expiresAt <= now\<close> is false; it counts the entries it
  removed and, when there is at least one, logs that count and writes the file (the write
  is attempted exactly then, and the file then holds the remaining entries unless the
  write fails). It completes with \<open>undefined\<close>: the count is logged, not returned.
\<close>

theorem cleanupExpiredOffers_effect:
  assumes "distinct (map fst (seenOffers w))"
  shows "seenOffers (snd (cleanupExpiredOffers now w)) = live_entries now (seenOffers w)
    \<and> new_events w (snd (cleanupExpiredOffers now w)) =
        map (\<lambda>p. MapDelete (fst p)) (expired_entries now (seenOffers w))
        @ (if expired_entries now (seenOffers w) = [] then []
           else [LogCleaned (length (expired_entries now (seenOffers w))), WriteFile])
    \<and> fst (cleanupExpiredOffers now w) =
        (if expired_entries now (seenOffers w) = [] then Returned Undefined
         else if writable w then Returned Undefined else Threw EIO)
    \<and> dataFile (snd (cleanupExpiredOffers now w)) =
        (if expired_entries now (seenOffers w) = [] then dataFile w
         else if writable w
         then Content (DObject (own_property_order (to_object (live_entries now (seenOffers w)))))
         else dataFile w)"
  by (simp add: cleanupExpiredOffers_def cleanup_loop_all [OF assms] save_def new_events_def Let_def)

theorem cleanupExpiredOffers_effect_witness:
  "distinct (map fst (seenOffers ex_store))
   \<and> seenOffers (snd (cleanupExpiredOffers 200 ex_store)) =
       [(INum 12, \<lparr>expiresAt = TNum 900, messageId = Some ''m12'', sentAt = Some 50\<rparr>),
        (INum 3, \<lparr>expiresAt = TNaN, messageId = None, sentAt = Some 50\<rparr>)]
   \<and> new_events ex_store (snd (cleanupExpiredOffers 200 ex_store)) =
       [MapDelete (INum 5), LogCleaned 1, WriteFile]
   \<and> fst (cleanupExpiredOffers 200 ex_store) = Returned Undefined
   \<and> dataFile (snd (cleanupExpiredOffers 200 ex_store)) =
       Content (DObject
         [(''3'', FObject \<lparr>expiresAt = TNull, messageId = None, sentAt = Some 50\<rparr>),
          (''12'', FObject \<lparr>expiresAt = TNum 900, messageId = Some ''m12'', sentAt = Some 50\<rparr>)])"
proof -
  have h: "distinct (map fst (seenOffers ex_store))"
    by (simp add: ex_store_def)
  have live: "live_entries 200 (seenOffers ex_store) =
       [(INum 12, \<lparr>expiresAt = TNum 900, messageId = Some ''m12'', sentAt = Some 50\<rparr>),
        (INum 3, \<lparr>expiresAt = TNaN, messageId = None, sentAt = Some 50\<rparr>)]"
    by (simp add: live_entries_def ex_store_def)
  have gone: "expired_entries 200 (seenOffers ex_store) =
       [(INum 5, \<lparr>expiresAt = TNum 100, messageId = Some ''m5'', sentAt = Some 50\<rparr>)]"
    by (simp add: expired_entries_def ex_store_def)
  have disk: "own_property_order (to_object
       [(INum 12, \<lparr>expiresAt = TNum 900, messageId = Some ''m12'', sentAt = Some 50\<rparr>),
        (INum 3, \<lparr>expiresAt = TNaN, messageId = None, sentAt = Some 50\<rparr>)]) =
         [(''3'', FObject \<lparr>expiresAt = TNull, messageId = None, sentAt = Some 50\<rparr>),
          (''12'', FObject \<lparr>expiresAt = TNum 900, messageId = Some ''m12'', sentAt = Some 50\<rparr>)]"
    by (simp add: eval_keys)
  have wr: "writable ex_store"
    by (simp add: ex_store_def)
  show ?thesis
    using cleanupExpiredOffers_effect [OF h, of 200] h by (simp add: live gone disk wr)
qed

text \<open>
  C9 as the specification words it fails on the returned value: with one expired entry
  removed, the call does not return the count 1.
\<close>

theorem cleanupExpiredOffers_count_not_returned:
  "length (expired_entries 200 (seenOffers ex_store)) = 1
   \<and> fst (cleanupExpiredOffers 200 ex_store)
       \<noteq> Returned (Number (int (length (expired_entries 200 (seenOffers ex_store)))))"
  by (simp add: expired_entries_def ex_store_def cleanupExpiredOffers_def save_def map_delete_def Let_def)

section \<open>Properties of the coordinator client\<close>

lemma fetch_coordinator_success:
  "fetch_coordinator http c = Success c' os \<longleftrightarrow> c' = c \<and> http c = Body (Listing os)"
  by (auto simp: fetch_coordinator_def getOrderBookFromCoordinator_def
      split: response.splits payload.splits)

lemma fetch_coordinator_success_sym:
  "Success c' os = fetch_coordinator http c \<longleftrightarrow> c' = c \<and> http c = Body (Listing os)"
  using fetch_coordinator_success [of http c c' os] by auto

lemma collect_results_reachable:
  "snd (collect_results rs acc R) = R \<union> {c. \<exists>os. Success c os \<in> set rs}"
proof (induction rs acc R rule: collect_results.induct)
  case (1 allOffers reachableCoordinators)
  then show ?case by simp
next
  case (2 c e rs allOffers reachableCoordinators)
  then show ?case by auto
next
  case (3 c os rs allOffers reachableCoordinators)
  then show ?case by auto
qed

lemma collect_results_offers:
  "fst (collect_results rs acc R) =
     acc @ concat (map (\<lambda>r. case r of Success c os \<Rightarrow> map (\<lambda>off. off\<lparr>coordinator := c\<rparr>) os
                                 | Failure c e \<Rightarrow> []) rs)"
  by (induction rs acc R rule: collect_results.induct) simp_all

lemma is_listing_iff: "is_listing r \<longleftrightarrow> (\<exists>os. r = Body (Listing os))"
  by (cases r rule: is_listing.cases) simp_all

text \<open>
  C6. The coordinators \<open>getOrderBook\<close> reports as reachable are exactly the configured
  ones whose response body is an array of offers, whatever its length. A body that is
  not an array makes \<open>getOrderBookFromCoordinator\<close> throw \<open>INVALID_RESPONSE\<close>, so that
  coordinator is left out of the set like one whose request failed, while an empty array
  keeps its coordinator in the set.
\<close>

theorem getOrderBook_reachable:
  "snd (getOrderBook http coordinators) = {c \<in> set coordinators. is_listing (http c)}
   \<and> getOrderBookFromCoordinator (\<lambda>c. Body NotAnArray) c = Threw INVALID_RESPONSE
   \<and> \<not> is_listing (Body NotAnArray)
   \<and> is_listing (Body (Listing []))
   \<and> \<not> is_listing (Rejected e)"
proof -
  have "snd (getOrderBook http coordinators) = {c \<in> set coordinators. is_listing (http c)}"
    unfolding getOrderBook_def collect_results_reachable
    by (auto simp: fetch_coordinator_success_sym is_listing_iff image_iff)
  then show ?thesis by (simp add: getOrderBookFromCoordinator_def)
qed

theorem getOrderBook_reachable_witness:
  "snd (getOrderBook ex_http [''alice'', ''bazaar'', ''moon'']) = {''alice''}
   \<and> fst (getOrderBook ex_http [''alice'', ''bazaar'', ''moon'']) = []"
proof -
  have "{c \<in> set [''alice'', ''bazaar'', ''moon'']. is_listing (ex_http c)} = {''alice''}"
    by (auto simp: ex_http_def)
  moreover have "fst (getOrderBook ex_http [''alice'', ''bazaar'', ''moon'']) = []"
    by (simp add: getOrderBook_def fetch_coordinator_def getOrderBookFromCoordinator_def ex_http_def)
  ultimately show ?thesis
    using getOrderBook_reachable [of ex_http "[''alice'', ''bazaar'', ''moon'']"] by simp
qed

text \<open>
  The earlier client does not make the distinction: a body that is not an array and an
  empty array give the same result.
\<close>

lemma legacy_invalid_is_empty:
  "getOrderBookFromCoordinator_legacy (\<lambda>c. Body NotAnArray) c
     = getOrderBookFromCoordinator_legacy (\<lambda>c. Body (Listing [])) c"
  by (simp add: getOrderBookFromCoordinator_legacy_def)

section \<open>Properties of the scheduler\<close>

text \<open>In every state of the process the flag says whether a cycle is in flight.\<close>

lemma reachable_inFlight:
  "reachable s \<Longrightarrow> inFlight s = (if isCheckInProgress s then 1 else 0)"
proof (induction rule: reachable.induct)
  case (r_init w)
  then show ?case by (simp add: initial_system_def)
next
  case (r_timer s now interval)
  then show ?case by (simp add: timer_fire_def checkForNewOffers_begin_def)
next
  case (r_call s)
  then show ?case by (simp add: checkForNewOffers_begin_def)
next
  case (r_finish s env)
  then show ?case by (simp add: checkForNewOffers_end_def split: if_splits)
next
  case (r_start s now interval)
  then show ?case by (simp add: startCheckInterval_def)
next
  case (r_stop s)
  then show ?case by (simp add: stopCheckInterval_def)
qed

text \<open>
  C8. In every state the process reaches, at most one cycle is in flight. When the timer
  fires while one is, the state after the callback is the state before it with only
  \<open>nextCheckTime\<close> advanced: no second cycle starts, nothing is recorded for later, and
  the tracker (the store, the file and the trace of notifications) is untouched. When
  none is in flight, the firing starts one.
\<close>

theorem overlapping_tick_dropped:
  assumes "reachable s"
  shows "inFlight s \<le> 1
    \<and> (if 0 < inFlight s
        then timer_fire now interval s = s\<lparr>nextCheckTime := Some (now + interval)\<rparr>
        else inFlight (timer_fire now interval s) = 1)"
  using reachable_inFlight [OF assms]
  by (simp add: timer_fire_def checkForNewOffers_begin_def split: if_splits)

theorem overlapping_tick_dropped_witness:
  "reachable ex_running
   \<and> inFlight ex_running = 1
   \<and> timer_fire 120000 60000 ex_running = ex_running\<lparr>nextCheckTime := Some 180000\<rparr>
   \<and> tracker (timer_fire 120000 60000 ex_running) = ex_store"
proof -
  have r: "reachable ex_running"
    unfolding ex_running_def
    by (intro r_timer r_start r_init) (simp add: startCheckInterval_def)
  have n: "inFlight ex_running = 1"
    by (simp add: ex_running_def timer_fire_def startCheckInterval_def initial_system_def
        checkForNewOffers_begin_def)
  have t: "tracker ex_running = ex_store"
    by (simp add: ex_running_def timer_fire_def startCheckInterval_def initial_system_def
        checkForNewOffers_begin_def)
  show ?thesis
    using overlapping_tick_dropped [OF r, of 120000 60000] r n t by simp
qed

section \<open>Properties of the check cycle\<close>

text \<open>The equations that evaluate a cycle on the example inputs.\<close>

lemmas eval_cycle = checkForNewOffersInternal_def cleanupExpiredOffers_def save_def
  getNewOffers_def isNew_def addOffers_def markAsSeen_def map_set_def map_delete_def
  date_getTime_def new_events_def Let_def defaultMaxAge_def number_to_string_def
  nat_to_dec.simps digit_char_def

lemmas eval_examples = ex_env_def ex_store_def ex_offer7_def ex_offer7b_def ex_offer8_def
  ex_offer9_def ex_dateParse_def fresh_tracker_def

subsection \<open>The notification loop and \<open>addOffers\<close>\<close>

lemma send_loop_done:
  "send_loop env i os w = (LoopDone, w') \<Longrightarrow>
     \<exists>hs. length hs = length os
        \<and> w' = w\<lparr>trace := trace w @ map (\<lambda>p. SendNotification (fst p) (Some (snd p))) (zip os hs)\<rparr>"
proof (induction os arbitrary: i w)
  case Nil
  then show ?case by simp
next
  case (Cons off rest)
  from Cons.prems obtain h where h: "sendNotification env i off = Some h"
    and rest: "send_loop env (i + 1) rest (w\<lparr>trace := trace w @ [SendNotification off (Some h)]\<rparr>) = (LoopDone, w')"
    by (auto split: if_splits option.splits)
  from Cons.IH [OF rest] obtain hs where hs: "length hs = length rest"
    "w' = w\<lparr>trace := trace w @ [SendNotification off (Some h)]
            @ map (\<lambda>p. SendNotification (fst p) (Some (snd p))) (zip rest hs)\<rparr>"
    by auto
  then have "length (h # hs) = length (off # rest)
     \<and> w' = w\<lparr>trace := trace w @ map (\<lambda>p. SendNotification (fst p) (Some (snd p))) (zip (off # rest) (h # hs))\<rparr>"
    by simp
  then show ?case by blast
qed

lemma sends_of_zip:
  "length os = length hs \<Longrightarrow>
     length (filter (is_send_of k) (map (\<lambda>p. SendNotification (fst p) (Some (snd p))) (zip os hs)))
       = length (filter (\<lambda>off. offerId off = k) os)"
  by (induction os hs rule: list_induct2) simp_all

lemma markAsSeen_keys:
  "fst ` set (seenOffers (markAsSeen dp now off mid w)) = insert (offerId off) (fst ` set (seenOffers w))"
  by (simp add: markAsSeen_def map_set_def Let_def dom_update)

lemma markAsSeen_distinct:
  "distinct (map fst (seenOffers w)) \<Longrightarrow> distinct (map fst (seenOffers (markAsSeen dp now off mid w)))"
  by (simp add: markAsSeen_def map_set_def Let_def distinct_update)

lemma markAsSeen_frame:
  "dataFile (markAsSeen dp now off mid w) = dataFile w"
  "writable (markAsSeen dp now off mid w) = writable w"
  "trace (markAsSeen dp now off mid w) = trace w @ [MapSet (offerId off)]"
  by (simp_all add: markAsSeen_def map_set_def Let_def)

lemma mark_all_keys:
  "fst ` set (seenOffers (foldl (\<lambda>w' off. markAsSeen dp now off None w') w offers))
     = fst ` set (seenOffers w) \<union> offerId ` set offers"
  by (induction offers arbitrary: w) (auto simp: markAsSeen_keys)

lemma mark_all_distinct:
  "distinct (map fst (seenOffers w)) \<Longrightarrow>
     distinct (map fst (seenOffers (foldl (\<lambda>w' off. markAsSeen dp now off None w') w offers)))"
  by (induction offers arbitrary: w) (auto simp: markAsSeen_distinct)

lemma mark_all_frame:
  "dataFile (foldl (\<lambda>w' off. markAsSeen dp now off None w') w offers) = dataFile w"
  "writable (foldl (\<lambda>w' off. markAsSeen dp now off None w') w offers) = writable w"
  "trace (foldl (\<lambda>w' off. markAsSeen dp now off None w') w offers)
     = trace w @ map (\<lambda>off. MapSet (offerId off)) offers"
  by (induction offers arbitrary: w) (simp_all add: markAsSeen_frame)

lemma save_frame:
  "seenOffers (snd (save w)) = seenOffers w"
  "trace (snd (save w)) = trace w @ [WriteFile]"
  "writable (snd (save w)) = writable w"
  "fst (save w) = (if writable w then Returned () else Threw EIO)"
  by (simp_all add: save_def Let_def)

lemma one_entry_per_key:
  "distinct (map fst m) \<Longrightarrow> length (filter (\<lambda>p. fst p = k) m) = (if k \<in> fst ` set m then 1 else 0)"
  by (induction m) (auto simp: image_iff)

lemma cleanup_returns_undefined:
  "cleanupExpiredOffers now w = (Returned u, w1) \<Longrightarrow> u = Undefined"
  by (auto simp: cleanupExpiredOffers_def split: prod.splits if_splits completion.splits)

lemma cycle_notified:
  assumes r: "checkForNewOffersInternal env w = (Notified n, w')"
  obtains w1 hs where
    "cleanupExpiredOffers (dateNow_cleanup env) w = (Returned Undefined, w1)"
    "length hs = length (getNewOffers (getOffers_result env) (w1\<lparr>trace := trace w1 @ [GetOffers]\<rparr>))"
    "addOffers (dateParse env) (dateNow_add env)
       (getNewOffers (getOffers_result env) (w1\<lparr>trace := trace w1 @ [GetOffers]\<rparr>))
       (w1\<lparr>trace := trace w1 @ [GetOffers]
             @ map (\<lambda>p. SendNotification (fst p) (Some (snd p)))
                 (zip (getNewOffers (getOffers_result env) (w1\<lparr>trace := trace w1 @ [GetOffers]\<rparr>)) hs)\<rparr>)
       = (Returned (), w')"
    "n = length (getNewOffers (getOffers_result env) (w1\<lparr>trace := trace w1 @ [GetOffers]\<rparr>))"
    "0 < n"
proof -
  from r obtain u w1 where c: "cleanupExpiredOffers (dateNow_cleanup env) w = (Returned u, w1)"
    by (auto simp: checkForNewOffersInternal_def Let_def
        split: if_splits prod.splits completion.splits loop_exit.splits)
  then have c': "cleanupExpiredOffers (dateNow_cleanup env) w = (Returned Undefined, w1)"
    using cleanup_returns_undefined by blast
  define w2 where "w2 = w1\<lparr>trace := trace w1 @ [GetOffers]\<rparr>"
  define newOffers where "newOffers = getNewOffers (getOffers_result env) w2"
  from r c obtain w3 where s: "send_loop env 0 newOffers w2 = (LoopDone, w3)"
    and a: "addOffers (dateParse env) (dateNow_add env) newOffers w3 = (Returned (), w')"
    and n: "n = length newOffers" "0 < n"
    by (auto simp: checkForNewOffersInternal_def Let_def w2_def newOffers_def
        split: if_splits prod.splits completion.splits loop_exit.splits)
  from send_loop_done [OF s] obtain hs where hs: "length hs = length newOffers"
    "w3 = w2\<lparr>trace := trace w2 @ map (\<lambda>p. SendNotification (fst p) (Some (snd p))) (zip newOffers hs)\<rparr>"
    by blast
  show thesis
    using that [of w1 hs] c' hs a n by (simp add: w2_def newOffers_def)
qed

lemma cleanup_returned_world:
  assumes d: "distinct (map fst (seenOffers w))"
    and c: "cleanupExpiredOffers now w = (r, w1)"
  shows "seenOffers w1 = live_entries now (seenOffers w)"
    and "writable w1 = writable w"
    and "trace w1 = trace w @ map (\<lambda>p. MapDelete (fst p)) (expired_entries now (seenOffers w))
           @ (if expired_entries now (seenOffers w) = [] then []
              else [LogCleaned (length (expired_entries now (seenOffers w))), WriteFile])"
  using c by (auto simp: cleanupExpiredOffers_def cleanup_loop_all [OF d] save_def Let_def
      split: if_splits)

lemma live_entries_keys: "fst ` set (live_entries now m) \<subseteq> fst ` set m"
  by (auto simp: live_entries_def)

lemma live_entries_distinct: "distinct (map fst m) \<Longrightarrow> distinct (map fst (live_entries now m))"
  by (simp add: live_entries_def distinct_map_filter)

lemma no_send_in_cleanup:
  "filter (is_send_of k) (map (\<lambda>p. MapDelete (fst p)) es @ (if c then [] else [LogCleaned n, WriteFile])) = []"
  by (induction es) simp_all

lemma no_send_in_sets:
  "filter (is_send_of k) (map (\<lambda>off. MapSet (offerId off)) os) = []"
  by (induction os) simp_all

lemma untracked_copies_are_new:
  assumes "k \<notin> fst ` set (seenOffers w2)"
  shows "filter (\<lambda>off. offerId off = k) (getNewOffers offers w2) = filter (\<lambda>off. offerId off = k) offers"
proof -
  have "map_of (seenOffers w2) k = None"
    using assms by (simp add: map_of_eq_None_iff)
  then show ?thesis
    by (induction offers) (auto simp: getNewOffers_def isNew_def)
qed

text \<open>
  C4, as the code has it. \<open>getNewOffers\<close> compares each listed offer with the store
  only, so every listed copy of an identifier the store does not hold is new. In a cycle
  that goes through (no abort, every send accepted, the file written), each copy is
  notified: the number of notifications sent for an identifier that was not tracked is
  the number of its copies in the list, two when two coordinators list it. The copies
  share one key of the map, so exactly one record is kept for it.
\<close>

theorem duplicate_copies_each_notified:
  assumes d: "distinct (map fst (seenOffers w))"
    and nk: "k \<notin> fst ` set (seenOffers w)"
    and r: "fst (checkForNewOffersInternal env w) = Notified n"
  shows "length (filter (is_send_of k) (new_events w (snd (checkForNewOffersInternal env w))))
           = length (filter (\<lambda>off. offerId off = k) (getOffers_result env))
       \<and> length (filter (\<lambda>p. fst p = k) (seenOffers (snd (checkForNewOffersInternal env w))))
           = (if k \<in> offerId ` set (getOffers_result env) then 1 else 0)"
proof -
  obtain w' where run: "checkForNewOffersInternal env w = (Notified n, w')"
    using r by (cases "checkForNewOffersInternal env w") simp
  define now where "now = dateNow_cleanup env"
  from run show ?thesis
  proof (rule cycle_notified)
    fix w1 :: world and hs :: "string list"
    define w2 where "w2 = w1\<lparr>trace := trace w1 @ [GetOffers]\<rparr>"
    define newOffers where "newOffers = getNewOffers (getOffers_result env) w2"
    define w3 where "w3 = w1\<lparr>trace := trace w1 @ [GetOffers]
             @ map (\<lambda>p. SendNotification (fst p) (Some (snd p))) (zip newOffers hs)\<rparr>"
    assume c0: "cleanupExpiredOffers (dateNow_cleanup env) w = (Returned Undefined, w1)"
      and hs0: "length hs = length (getNewOffers (getOffers_result env) (w1\<lparr>trace := trace w1 @ [GetOffers]\<rparr>))"
      and a0: "addOffers (dateParse env) (dateNow_add env)
       (getNewOffers (getOffers_result env) (w1\<lparr>trace := trace w1 @ [GetOffers]\<rparr>))
       (w1\<lparr>trace := trace w1 @ [GetOffers]
             @ map (\<lambda>p. SendNotification (fst p) (Some (snd p)))
                 (zip (getNewOffers (getOffers_result env) (w1\<lparr>trace := trace w1 @ [GetOffers]\<rparr>)) hs)\<rparr>)
       = (Returned (), w')"
    have c: "cleanupExpiredOffers now w = (Returned Undefined, w1)"
      using c0 by (simp add: now_def)
    have hs: "length newOffers = length hs"
      using hs0 by (simp add: newOffers_def w2_def)
    have a: "addOffers (dateParse env) (dateNow_add env) newOffers w3 = (Returned (), w')"
      using a0 by (simp add: newOffers_def w2_def w3_def)
    have w': "w' = snd (save (foldl (\<lambda>w' off. markAsSeen (dateParse env) (dateNow_add env) off None w') w3 newOffers))"
      using a by (simp add: addOffers_def)
    note w1 = cleanup_returned_world [OF d c]
    have k1: "k \<notin> fst ` set (seenOffers w1)"
      using nk w1(1) live_entries_keys [of now "seenOffers w"] by auto
    have d1: "distinct (map fst (seenOffers w1))"
      using d w1(1) by (simp add: live_entries_distinct)
    have "k \<notin> fst ` set (seenOffers w2)"
      using k1 by (simp add: w2_def)
    then have copies: "filter (\<lambda>off. offerId off = k) newOffers
        = filter (\<lambda>off. offerId off = k) (getOffers_result env)"
      unfolding newOffers_def by (rule untracked_copies_are_new)
    have ids: "k \<in> offerId ` set newOffers \<longleftrightarrow> k \<in> offerId ` set (getOffers_result env)"
    proof -
      have "k \<in> offerId ` set os \<longleftrightarrow> filter (\<lambda>off. offerId off = k) os \<noteq> []" for os :: "offer list"
        by (auto simp: filter_empty_conv)
      then show ?thesis using copies by simp
    qed
    have tr: "trace w' = trace w @ (map (\<lambda>p. MapDelete (fst p)) (expired_entries now (seenOffers w))
           @ (if expired_entries now (seenOffers w) = [] then []
              else [LogCleaned (length (expired_entries now (seenOffers w))), WriteFile]))
        @ [GetOffers]
        @ map (\<lambda>p. SendNotification (fst p) (Some (snd p))) (zip newOffers hs)
        @ map (\<lambda>off. MapSet (offerId off)) newOffers @ [WriteFile]"
      unfolding w' by (simp add: save_frame mark_all_frame w3_def w1(3))
    have seen: "seenOffers w' = seenOffers (foldl (\<lambda>w' off. markAsSeen (dateParse env) (dateNow_add env) off None w') w3 newOffers)"
      unfolding w' by (simp add: save_frame)
    have sends: "length (filter (is_send_of k) (new_events w w'))
        = length (filter (\<lambda>off. offerId off = k) (getOffers_result env))"
      unfolding new_events_def tr
      using sends_of_zip [OF hs, of k] copies
      by (simp add: no_send_in_cleanup no_send_in_sets)
    have keys: "fst ` set (seenOffers w') = fst ` set (seenOffers w1) \<union> offerId ` set newOffers"
      unfolding seen by (simp add: mark_all_keys w3_def)
    have dist: "distinct (map fst (seenOffers w'))"
      unfolding seen using d1 by (intro mark_all_distinct) (simp add: w3_def)
    have "length (filter (\<lambda>p. fst p = k) (seenOffers w'))
        = (if k \<in> offerId ` set (getOffers_result env) then 1 else 0)"
      using one_entry_per_key [OF dist, of k] keys k1 ids by auto
    with sends show ?thesis using run by simp
  qed
qed

theorem duplicate_copies_each_notified_witness:
  "distinct (map fst (seenOffers ex_store))
   \<and> INum 7 \<notin> fst ` set (seenOffers ex_store)
   \<and> fst (checkForNewOffersInternal (ex_env 200 [ex_offer7, ex_offer7b]) ex_store) = Notified 2
   \<and> length (filter (is_send_of (INum 7))
        (new_events ex_store (snd (checkForNewOffersInternal (ex_env 200 [ex_offer7, ex_offer7b]) ex_store)))) = 2
   \<and> length (filter (\<lambda>p. fst p = INum 7)
        (seenOffers (snd (checkForNewOffersInternal (ex_env 200 [ex_offer7, ex_offer7b]) ex_store)))) = 1"
proof -
  have h1: "distinct (map fst (seenOffers ex_store))"
    by (simp add: ex_store_def)
  have h2: "INum 7 \<notin> fst ` set (seenOffers ex_store)"
    by (simp add: ex_store_def)
  have h3: "fst (checkForNewOffersInternal (ex_env 200 [ex_offer7, ex_offer7b]) ex_store) = Notified 2"
    by (simp add: eval_cycle eval_examples)
  have copies: "length (filter (\<lambda>off. offerId off = INum 7)
      (getOffers_result (ex_env 200 [ex_offer7, ex_offer7b]))) = 2"
    by (simp add: ex_env_def ex_offer7_def ex_offer7b_def)
  have listed: "INum 7 \<in> offerId ` set (getOffers_result (ex_env 200 [ex_offer7, ex_offer7b]))"
    by (simp add: ex_env_def ex_offer7_def ex_offer7b_def)
  show ?thesis
    using duplicate_copies_each_notified [OF h1 h2 h3] h1 h2 h3 copies listed by simp
qed
text \<open>
  C4 as the specification words it fails: offer 7 listed by two coordinators, against an
  empty tracker, is notified twice.
\<close>

theorem duplicate_offer_notified_twice:
  "length (filter (is_send_of (INum 7))
     (new_events (fresh_tracker Missing True)
        (snd (checkForNewOffersInternal (ex_env 200 [ex_offer7, ex_offer7b]) (fresh_tracker Missing True))))) = 2
   \<and> new_events (fresh_tracker Missing True)
        (snd (checkForNewOffersInternal (ex_env 200 [ex_offer7, ex_offer7b]) (fresh_tracker Missing True)))
      = [GetOffers, SendNotification ex_offer7 (Some ''m7''), SendNotification ex_offer7b (Some ''m7''),
         MapSet (INum 7), MapSet (INum 7), WriteFile]"
  by (simp add: eval_cycle eval_examples)

subsection \<open>A second cycle on the same offers\<close>

lemma nothing_expired_all_live:
  "expired_entries now m = [] \<Longrightarrow> live_entries now m = m"
  by (induction m) (auto simp: expired_entries_def live_entries_def split: if_splits)

lemma cleanup_nothing_expired:
  assumes "distinct (map fst (seenOffers w))" and "expired_entries now (seenOffers w) = []"
  shows "cleanupExpiredOffers now w = (Returned Undefined, w)"
  using assms(2)
  by (simp add: cleanupExpiredOffers_def cleanup_loop_all [OF assms(1)] nothing_expired_all_live)

lemma getNewOffers_empty_iff:
  "getNewOffers offers w = [] \<longleftrightarrow> offerId ` set offers \<subseteq> fst ` set (seenOffers w)"
  by (auto simp: getNewOffers_def isNew_def filter_empty_conv map_of_eq_None_iff)

lemma new_or_tracked:
  "offerId ` set offers \<subseteq> fst ` set (seenOffers w) \<union> offerId ` set (getNewOffers offers w)"
  by (auto simp: getNewOffers_def isNew_def map_of_eq_None_iff)

lemma cycle_no_new:
  assumes "checkForNewOffersInternal env w = (NoNewOffers, w')"
  obtains w1 where "cleanupExpiredOffers (dateNow_cleanup env) w = (Returned Undefined, w1)"
    and "w' = w1\<lparr>trace := trace w1 @ [GetOffers]\<rparr>"
    and "getNewOffers (getOffers_result env) w' = []"
proof -
  from assms obtain u w1 where c: "cleanupExpiredOffers (dateNow_cleanup env) w = (Returned u, w1)"
    by (auto simp: checkForNewOffersInternal_def Let_def
        split: if_splits prod.splits completion.splits loop_exit.splits)
  then have c': "cleanupExpiredOffers (dateNow_cleanup env) w = (Returned Undefined, w1)"
    using cleanup_returns_undefined by blast
  from assms c have "w' = w1\<lparr>trace := trace w1 @ [GetOffers]\<rparr>"
    and "getNewOffers (getOffers_result env) (w1\<lparr>trace := trace w1 @ [GetOffers]\<rparr>) = []"
    by (auto simp: checkForNewOffersInternal_def Let_def
        split: if_splits prod.splits completion.splits loop_exit.splits)
  with c' show thesis using that by simp
qed

lemma completed_run_tracks_all:
  assumes d: "distinct (map fst (seenOffers w))"
    and c: "completed (fst (checkForNewOffersInternal env w))"
  shows "distinct (map fst (seenOffers (snd (checkForNewOffersInternal env w))))
    \<and> offerId ` set (getOffers_result env) \<subseteq> fst ` set (seenOffers (snd (checkForNewOffersInternal env w)))"
proof -
  obtain r w' where run: "checkForNewOffersInternal env w = (r, w')"
    by (cases "checkForNewOffersInternal env w")
  with c have "completed r" by simp
  then show ?thesis
  proof (cases r rule: completed.cases)
    case 1
    from run [unfolded 1] show ?thesis
    proof (rule cycle_no_new)
      fix w1 :: world
      assume c1: "cleanupExpiredOffers (dateNow_cleanup env) w = (Returned Undefined, w1)"
        and w': "w' = w1\<lparr>trace := trace w1 @ [GetOffers]\<rparr>"
        and none: "getNewOffers (getOffers_result env) w' = []"
      have "distinct (map fst (seenOffers w'))"
        using cleanup_returned_world(1) [OF d c1] d w' by (simp add: live_entries_distinct)
      then show ?thesis using none run by (simp add: getNewOffers_empty_iff)
    qed
  next
    case (2 n)
    from run [unfolded 2] show ?thesis
    proof (rule cycle_notified)
      fix w1 :: world and hs :: "string list"
      define w2 where "w2 = w1\<lparr>trace := trace w1 @ [GetOffers]\<rparr>"
      define newOffers where "newOffers = getNewOffers (getOffers_result env) w2"
      define w3 where "w3 = w1\<lparr>trace := trace w1 @ [GetOffers]
             @ map (\<lambda>p. SendNotification (fst p) (Some (snd p))) (zip newOffers hs)\<rparr>"
      assume c1: "cleanupExpiredOffers (dateNow_cleanup env) w = (Returned Undefined, w1)"
        and a0: "addOffers (dateParse env) (dateNow_add env)
         (getNewOffers (getOffers_result env) (w1\<lparr>trace := trace w1 @ [GetOffers]\<rparr>))
         (w1\<lparr>trace := trace w1 @ [GetOffers]
             @ map (\<lambda>p. SendNotification (fst p) (Some (snd p)))
                 (zip (getNewOffers (getOffers_result env) (w1\<lparr>trace := trace w1 @ [GetOffers]\<rparr>)) hs)\<rparr>)
         = (Returned (), w')"
      have w': "w' = snd (save (foldl (\<lambda>w' off. markAsSeen (dateParse env) (dateNow_add env) off None w') w3 newOffers))"
        using a0 by (simp add: addOffers_def newOffers_def w2_def w3_def)
      have d1: "distinct (map fst (seenOffers w3))"
        using cleanup_returned_world(1) [OF d c1] d by (simp add: live_entries_distinct w3_def)
      have dist: "distinct (map fst (seenOffers w'))"
        unfolding w' save_frame using d1 by (rule mark_all_distinct)
      have "fst ` set (seenOffers w') = fst ` set (seenOffers w2) \<union> offerId ` set newOffers"
        unfolding w' save_frame by (simp add: mark_all_keys w3_def w2_def)
      then have "offerId ` set (getOffers_result env) \<subseteq> fst ` set (seenOffers w')"
        using new_or_tracked [of "getOffers_result env" w2] by (simp add: newOffers_def)
      with dist show ?thesis using run by simp
    qed
  qed simp_all
qed

text \<open>
  C3, as the code has it. After a cycle that went through, a second cycle that is given
  the same offers, and whose clock has not reached the expiry of any record the first one
  left, changes neither the map nor the file, sends and deletes nothing and writes
  nothing: all it can add to the trace is its own fetch.
\<close>

theorem second_run_is_noop:
  assumes d: "distinct (map fst (seenOffers w))"
    and c: "completed (fst (checkForNewOffersInternal env1 w))"
    and same: "getOffers_result env2 = getOffers_result env1"
    and live: "expired_entries (dateNow_cleanup env2)
                 (seenOffers (snd (checkForNewOffersInternal env1 w))) = []"
  shows "seenOffers (snd (checkForNewOffersInternal env2 (snd (checkForNewOffersInternal env1 w))))
           = seenOffers (snd (checkForNewOffersInternal env1 w))
    \<and> dataFile (snd (checkForNewOffersInternal env2 (snd (checkForNewOffersInternal env1 w))))
           = dataFile (snd (checkForNewOffersInternal env1 w))
    \<and> (new_events (snd (checkForNewOffersInternal env1 w))
          (snd (checkForNewOffersInternal env2 (snd (checkForNewOffersInternal env1 w)))) = []
       \<or> new_events (snd (checkForNewOffersInternal env1 w))
          (snd (checkForNewOffersInternal env2 (snd (checkForNewOffersInternal env1 w)))) = [GetOffers])"
proof -
  define w1 where "w1 = snd (checkForNewOffersInternal env1 w)"
  from completed_run_tracks_all [OF d c]
  have d1: "distinct (map fst (seenOffers w1))"
    and all: "offerId ` set (getOffers_result env2) \<subseteq> fst ` set (seenOffers w1)"
    by (simp_all add: w1_def same)
  have cl: "cleanupExpiredOffers (dateNow_cleanup env2) w1 = (Returned Undefined, w1)"
    using cleanup_nothing_expired [OF d1] live by (simp add: w1_def)
  have none: "getNewOffers (getOffers_result env2) (w1\<lparr>trace := trace w1 @ [GetOffers]\<rparr>) = []"
    using all by (simp add: getNewOffers_empty_iff)
  have "seenOffers (snd (checkForNewOffersInternal env2 w1)) = seenOffers w1
    \<and> dataFile (snd (checkForNewOffersInternal env2 w1)) = dataFile w1
    \<and> (new_events w1 (snd (checkForNewOffersInternal env2 w1)) = []
       \<or> new_events w1 (snd (checkForNewOffersInternal env2 w1)) = [GetOffers])"
    by (simp add: checkForNewOffersInternal_def cl none new_events_def Let_def)
  then show ?thesis by (simp add: w1_def)
qed

theorem second_run_is_noop_witness:
  "distinct (map fst (seenOffers ex_store))
   \<and> completed (fst (checkForNewOffersInternal (ex_env 200 [ex_offer7]) ex_store))
   \<and> expired_entries 300 (seenOffers (snd (checkForNewOffersInternal (ex_env 200 [ex_offer7]) ex_store))) = []
   \<and> seenOffers (snd (checkForNewOffersInternal (ex_env 300 [ex_offer7])
          (snd (checkForNewOffersInternal (ex_env 200 [ex_offer7]) ex_store))))
       = seenOffers (snd (checkForNewOffersInternal (ex_env 200 [ex_offer7]) ex_store))
   \<and> dataFile (snd (checkForNewOffersInternal (ex_env 300 [ex_offer7])
          (snd (checkForNewOffersInternal (ex_env 200 [ex_offer7]) ex_store))))
       = dataFile (snd (checkForNewOffersInternal (ex_env 200 [ex_offer7]) ex_store))
   \<and> new_events (snd (checkForNewOffersInternal (ex_env 200 [ex_offer7]) ex_store))
         (snd (checkForNewOffersInternal (ex_env 300 [ex_offer7])
            (snd (checkForNewOffersInternal (ex_env 200 [ex_offer7]) ex_store))))
       = [GetOffers]"
proof -
  have h1: "distinct (map fst (seenOffers ex_store))"
    by (simp add: ex_store_def)
  have h2: "completed (fst (checkForNewOffersInternal (ex_env 200 [ex_offer7]) ex_store))"
    by (simp add: eval_cycle eval_examples)
  have h3: "getOffers_result (ex_env 300 [ex_offer7]) = getOffers_result (ex_env 200 [ex_offer7])"
    by (simp add: ex_env_def)
  have h4: "expired_entries (dateNow_cleanup (ex_env 300 [ex_offer7]))
      (seenOffers (snd (checkForNewOffersInternal (ex_env 200 [ex_offer7]) ex_store))) = []"
    by (simp add: expired_entries_def eval_cycle eval_examples)
  have h5: "\<not> aborted (ex_env 300 [ex_offer7]) 0 \<and> \<not> aborted (ex_env 300 [ex_offer7]) 1
      \<and> configValid (ex_env 300 [ex_offer7])"
    by (simp add: ex_env_def)
  have ev: "new_events (snd (checkForNewOffersInternal (ex_env 200 [ex_offer7]) ex_store))
         (snd (checkForNewOffersInternal (ex_env 300 [ex_offer7])
            (snd (checkForNewOffersInternal (ex_env 200 [ex_offer7]) ex_store)))) \<noteq> []"
    by (simp add: eval_cycle eval_examples)
  have now: "dateNow_cleanup (ex_env 300 [ex_offer7]) = 300"
    by (simp add: ex_env_def)
  show ?thesis
    using second_run_is_noop [OF h1 h2 h3 h4] h1 h2 h4 ev by (simp add: now)
qed

text \<open>
  C3 as the specification words it fails when a record expires while its offer is still
  listed: offer 9 expires at 250; the cycle at 200 notifies it, the cycle at 300 on the
  same list evicts its record and notifies it again.
\<close>

theorem second_run_notifies_again:
  "fst (checkForNewOffersInternal (ex_env 200 [ex_offer9]) (fresh_tracker Missing True)) = Notified 1
   \<and> fst (checkForNewOffersInternal (ex_env 300 [ex_offer9])
        (snd (checkForNewOffersInternal (ex_env 200 [ex_offer9]) (fresh_tracker Missing True)))) = Notified 1
   \<and> filter is_send
        (new_events (snd (checkForNewOffersInternal (ex_env 200 [ex_offer9]) (fresh_tracker Missing True)))
           (snd (checkForNewOffersInternal (ex_env 300 [ex_offer9])
              (snd (checkForNewOffersInternal (ex_env 200 [ex_offer9]) (fresh_tracker Missing True))))))
      = [SendNotification ex_offer9 (Some ''m9'')]"
  by (simp add: eval_cycle eval_examples)

subsection \<open>What every cycle does\<close>

lemma cycle_world_cases:
  "snd (checkForNewOffersInternal env w) \<in>
     {w,
      snd (cleanupExpiredOffers (dateNow_cleanup env) w),
      (snd (cleanupExpiredOffers (dateNow_cleanup env) w))
         \<lparr>trace := trace (snd (cleanupExpiredOffers (dateNow_cleanup env) w)) @ [GetOffers]\<rparr>,
      snd (send_loop env 0
         (getNewOffers (getOffers_result env) (snd (cleanupExpiredOffers (dateNow_cleanup env) w)))
         ((snd (cleanupExpiredOffers (dateNow_cleanup env) w))
            \<lparr>trace := trace (snd (cleanupExpiredOffers (dateNow_cleanup env) w)) @ [GetOffers]\<rparr>)),
      snd (addOffers (dateParse env) (dateNow_add env)
         (getNewOffers (getOffers_result env) (snd (cleanupExpiredOffers (dateNow_cleanup env) w)))
         (snd (send_loop env 0
            (getNewOffers (getOffers_result env) (snd (cleanupExpiredOffers (dateNow_cleanup env) w)))
            ((snd (cleanupExpiredOffers (dateNow_cleanup env) w))
               \<lparr>trace := trace (snd (cleanupExpiredOffers (dateNow_cleanup env) w)) @ [GetOffers]\<rparr>))))}"
proof -
  have g: "getNewOffers offers (w1\<lparr>trace := t\<rparr>) = getNewOffers offers w1" for offers w1 t
    by (simp add: getNewOffers_def isNew_def)
  show ?thesis
    by (simp add: checkForNewOffersInternal_def Let_def g
        split: prod.splits completion.splits loop_exit.splits)
qed

lemma send_loop_appends:
  "\<exists>evs. snd (send_loop env i os w) = w\<lparr>trace := trace w @ evs\<rparr> \<and> list_all is_send evs"
proof (induction os arbitrary: i w)
  case Nil
  have "snd (send_loop env i [] w) = w\<lparr>trace := trace w @ []\<rparr> \<and> list_all is_send []" by simp
  then show ?case by blast
next
  case (Cons off rest)
  show ?case
  proof (cases "aborted env (3 + i)")
    case True
    then have "snd (send_loop env i (off # rest) w) = w\<lparr>trace := trace w @ []\<rparr> \<and> list_all is_send []"
      by simp
    then show ?thesis by blast
  next
    case False
    show ?thesis
    proof (cases "sendNotification env i off")
      case None
      then have "snd (send_loop env i (off # rest) w) = w\<lparr>trace := trace w @ [SendNotification off None]\<rparr>
          \<and> list_all is_send [SendNotification off None]"
        using False by simp
      then show ?thesis by blast
    next
      case (Some h)
      from Cons.IH [of "i + 1" "w\<lparr>trace := trace w @ [SendNotification off (Some h)]\<rparr>"]
      obtain evs where "snd (send_loop env (i + 1) rest (w\<lparr>trace := trace w @ [SendNotification off (Some h)]\<rparr>))
          = w\<lparr>trace := trace w @ [SendNotification off (Some h)] @ evs\<rparr>" "list_all is_send evs"
        by auto
      then have "snd (send_loop env i (off # rest) w) = w\<lparr>trace := trace w @ (SendNotification off (Some h) # evs)\<rparr>
          \<and> list_all is_send (SendNotification off (Some h) # evs)"
        using False Some by simp
      then show ?thesis by blast
    qed
  qed
qed

lemma live_entry_kept:
  assumes "distinct (map fst m)" "map_of m k = Some v" "\<not> js_le (expiresAt v) now"
  shows "map_of (live_entries now m) k = Some v"
proof -
  have "(k, v) \<in> set (live_entries now m)"
    using assms(2,3) by (auto simp: live_entries_def dest: map_of_SomeD)
  moreover have "distinct (map fst (live_entries now m))"
    using assms(1) by (rule live_entries_distinct)
  ultimately show ?thesis by simp
qed

lemma mark_all_other:
  "k \<notin> offerId ` set offers \<Longrightarrow>
     map_of (seenOffers (foldl (\<lambda>w' off. markAsSeen dp now off None w') w offers)) k
       = map_of (seenOffers w) k"
  by (induction offers arbitrary: w) (auto simp: markAsSeen_def map_set_def Let_def update_conv')

lemma new_offers_untracked:
  "map_of (seenOffers w1) k = Some v \<Longrightarrow> k \<notin> offerId ` set (getNewOffers offers w1)"
  by (auto simp: getNewOffers_def isNew_def)

lemma addOffers_world:
  "seenOffers (snd (addOffers dp now offers w))
     = seenOffers (foldl (\<lambda>w' off. markAsSeen dp now off None w') w offers)"
  "trace (snd (addOffers dp now offers w))
     = trace w @ map (\<lambda>off. MapSet (offerId off)) offers @ [WriteFile]"
  by (simp_all add: addOffers_def save_frame mark_all_frame)

lemma no_delete_in_cleanup:
  "filter is_delete_message (map (\<lambda>p. MapDelete (fst p)) es @ (if c then [] else [LogCleaned n, WriteFile])) = []"
  by (induction es) simp_all

lemma no_delete_in_sets:
  "filter is_delete_message (map (\<lambda>off. MapSet (offerId off)) os) = []"
  by (induction os) simp_all

lemma no_delete_in_sends:
  "list_all is_send evs \<Longrightarrow> filter is_delete_message evs = []"
proof (induction evs)
  case Nil
  then show ?case by simp
next
  case (Cons e evs)
  then show ?case by (cases e) simp_all
qed

text \<open>
  What every cycle does with a record that is tracked and has not expired, whether or
  not its offer is still listed: it leaves the record as it is, and it never calls
  \<open>deleteMessage\<close>.
\<close>

lemma cycle_never_retracts:
  assumes d: "distinct (map fst (seenOffers w))"
    and k: "map_of (seenOffers w) k = Some v"
    and live: "\<not> js_le (expiresAt v) (dateNow_cleanup env)"
  shows "map_of (seenOffers (snd (checkForNewOffersInternal env w))) k = Some v"
    and "filter is_delete_message (new_events w (snd (checkForNewOffersInternal env w))) = []"
proof -
  define now where "now = dateNow_cleanup env"
  define w1 where "w1 = snd (cleanupExpiredOffers now w)"
  define w2 where "w2 = w1\<lparr>trace := trace w1 @ [GetOffers]\<rparr>"
  define newOffers where "newOffers = getNewOffers (getOffers_result env) w1"
  define w3 where "w3 = snd (send_loop env 0 newOffers w2)"
  define w4 where "w4 = snd (addOffers (dateParse env) (dateNow_add env) newOffers w3)"
  define cl where "cl = map (\<lambda>p. MapDelete (fst p)) (expired_entries now (seenOffers w))
           @ (if expired_entries now (seenOffers w) = [] then []
              else [LogCleaned (length (expired_entries now (seenOffers w))), WriteFile])"
  have c: "cleanupExpiredOffers now w = (fst (cleanupExpiredOffers now w), w1)"
    by (simp add: w1_def)
  note cw = cleanup_returned_world [OF d c]
  have t1: "trace w1 = trace w @ cl"
    using cw(3) by (simp add: cl_def)
  have k1: "map_of (seenOffers w1) k = Some v"
    using cw(1) live_entry_kept [OF d k, of now] live by (simp add: now_def)
  from send_loop_appends [of env 0 newOffers w2] obtain evs where
    w3: "w3 = w2\<lparr>trace := trace w2 @ evs\<rparr>" and evs: "list_all is_send evs"
    by (auto simp: w3_def)
  have s4: "map_of (seenOffers w4) k = Some v"
    using mark_all_other [OF new_offers_untracked [OF k1, of "getOffers_result env"]] k1
    by (simp add: w4_def addOffers_world w3 w2_def newOffers_def)
  have t4: "trace w4 = trace w @ cl @ [GetOffers] @ evs @ map (\<lambda>off. MapSet (offerId off)) newOffers @ [WriteFile]"
    by (simp add: w4_def addOffers_world w3 w2_def t1)
  have cases: "snd (checkForNewOffersInternal env w) \<in> {w, w1, w2, w3, w4}"
    using cycle_world_cases [of env w]
    by (simp only: w1_def w2_def w3_def w4_def newOffers_def now_def)
  have nd_cl: "filter is_delete_message cl = []"
    unfolding cl_def by (rule no_delete_in_cleanup)
  have nd_evs: "filter is_delete_message evs = []"
    using evs by (rule no_delete_in_sends)
  have "map_of (seenOffers w') k = Some v \<and> filter is_delete_message (new_events w w') = []"
    if "w' \<in> {w, w1, w2, w3, w4}" for w'
    using that k k1 s4 t1 t4 nd_cl nd_evs
    by (auto simp: new_events_def w2_def w3 no_delete_in_sets)
  with cases show "map_of (seenOffers (snd (checkForNewOffersInternal env w))) k = Some v"
    and "filter is_delete_message (new_events w (snd (checkForNewOffersInternal env w))) = []"
    by blast+
qed

lemma mark_all_fields:
  "off \<in> set offers \<Longrightarrow>
     \<exists>v. map_of (seenOffers (foldl (\<lambda>w' off. markAsSeen dp now off None w') w offers)) (offerId off) = Some v
        \<and> messageId v = None \<and> sentAt v = Some now"
proof (induction offers rule: rev_induct)
  case Nil
  then show ?case by simp
next
  case (snoc x xs)
  show ?case
  proof (cases "offerId off = offerId x")
    case True
    then show ?thesis
      by (simp add: markAsSeen_def map_set_def Let_def update_conv')
  next
    case False
    with snoc.prems have "off \<in> set xs" by auto
    from snoc.IH [OF this] show ?thesis
      using False by (simp add: markAsSeen_def map_set_def Let_def update_conv')
  qed
qed

text \<open>
  The record a cycle that went through stores for an offer that was not tracked: whatever
  handle the notifier answered, \<open>messageId\<close> is \<open>null\<close>, and \<open>sentAt\<close> is the time of
  \<open>addOffers\<close>.
\<close>

lemma notified_record_fields:
  assumes d: "distinct (map fst (seenOffers w))"
    and run: "fst (checkForNewOffersInternal env w) = Notified n"
    and off: "off \<in> set (getOffers_result env)"
    and new: "offerId off \<notin> fst ` set (seenOffers w)"
  shows "\<exists>v. map_of (seenOffers (snd (checkForNewOffersInternal env w))) (offerId off) = Some v
        \<and> messageId v = None \<and> sentAt v = Some (dateNow_add env)"
proof -
  obtain w' where r: "checkForNewOffersInternal env w = (Notified n, w')"
    using run by (cases "checkForNewOffersInternal env w") simp
  from r show ?thesis
  proof (rule cycle_notified)
    fix w1 :: world and hs :: "string list"
    define w2 where "w2 = w1\<lparr>trace := trace w1 @ [GetOffers]\<rparr>"
    define newOffers where "newOffers = getNewOffers (getOffers_result env) w2"
    assume c: "cleanupExpiredOffers (dateNow_cleanup env) w = (Returned Undefined, w1)"
      and a0: "addOffers (dateParse env) (dateNow_add env)
       (getNewOffers (getOffers_result env) (w1\<lparr>trace := trace w1 @ [GetOffers]\<rparr>))
       (w1\<lparr>trace := trace w1 @ [GetOffers]
             @ map (\<lambda>p. SendNotification (fst p) (Some (snd p)))
                 (zip (getNewOffers (getOffers_result env) (w1\<lparr>trace := trace w1 @ [GetOffers]\<rparr>)) hs)\<rparr>)
       = (Returned (), w')"
    have "offerId off \<notin> fst ` set (seenOffers w2)"
      using new cleanup_returned_world(1) [OF d c] live_entries_keys [of "dateNow_cleanup env" "seenOffers w"]
      by (auto simp: w2_def)
    then have "off \<in> set newOffers"
      using off by (simp add: newOffers_def getNewOffers_def isNew_def map_of_eq_None_iff)
    moreover have "seenOffers w' = seenOffers (foldl (\<lambda>w' off. markAsSeen (dateParse env) (dateNow_add env) off None w')
        (w1\<lparr>trace := trace w1 @ [GetOffers]
             @ map (\<lambda>p. SendNotification (fst p) (Some (snd p))) (zip newOffers hs)\<rparr>) newOffers)"
      using a0 addOffers_world(1) [of "dateParse env" "dateNow_add env" newOffers
        "w1\<lparr>trace := trace w1 @ [GetOffers]
             @ map (\<lambda>p. SendNotification (fst p) (Some (snd p))) (zip newOffers hs)\<rparr>"]
      by (simp add: newOffers_def w2_def)
    ultimately show ?thesis
      using mark_all_fields [of off newOffers] r by simp
  qed
qed

lemma send_is_no_eviction: "is_send e \<Longrightarrow> \<not> is_map_delete e"
  by (cases e) simp_all

lemma sends_are_no_evictions: "list_all is_send evs \<Longrightarrow> list_all (\<lambda>e. \<not> is_map_delete e) evs"
  by (induction evs) (simp_all add: send_is_no_eviction)

lemma sets_are_no_evictions: "list_all (\<lambda>e. \<not> is_map_delete e) (map (\<lambda>off. MapSet (offerId off)) os)"
  by (induction os) simp_all

lemma cycle_world_cases_started:
  assumes "\<not> aborted env 0" "configValid env"
  shows "snd (checkForNewOffersInternal env w) \<in>
     {snd (cleanupExpiredOffers (dateNow_cleanup env) w),
      (snd (cleanupExpiredOffers (dateNow_cleanup env) w))
         \<lparr>trace := trace (snd (cleanupExpiredOffers (dateNow_cleanup env) w)) @ [GetOffers]\<rparr>,
      snd (send_loop env 0
         (getNewOffers (getOffers_result env) (snd (cleanupExpiredOffers (dateNow_cleanup env) w)))
         ((snd (cleanupExpiredOffers (dateNow_cleanup env) w))
            \<lparr>trace := trace (snd (cleanupExpiredOffers (dateNow_cleanup env) w)) @ [GetOffers]\<rparr>)),
      snd (addOffers (dateParse env) (dateNow_add env)
         (getNewOffers (getOffers_result env) (snd (cleanupExpiredOffers (dateNow_cleanup env) w)))
         (snd (send_loop env 0
            (getNewOffers (getOffers_result env) (snd (cleanupExpiredOffers (dateNow_cleanup env) w)))
            ((snd (cleanupExpiredOffers (dateNow_cleanup env) w))
               \<lparr>trace := trace (snd (cleanupExpiredOffers (dateNow_cleanup env) w)) @ [GetOffers]\<rparr>))))}"
proof -
  have g: "getNewOffers offers (w1\<lparr>trace := t\<rparr>) = getNewOffers offers w1" for offers w1 t
    by (simp add: getNewOffers_def isNew_def)
  show ?thesis
    using assms
    by (simp add: checkForNewOffersInternal_def Let_def g
        split: prod.splits completion.splits loop_exit.splits)
qed

text \<open>
  The order of every cycle that gets past its entry checks: the records that have expired
  are evicted (and the file written if there are any) before anything else happens, in
  particular before the offers are fetched.
\<close>

lemma cycle_evicts_first:
  assumes d: "distinct (map fst (seenOffers w))"
    and "\<not> aborted env 0" "configValid env"
  shows "\<exists>rest. new_events w (snd (checkForNewOffersInternal env w))
      = map (\<lambda>p. MapDelete (fst p)) (expired_entries (dateNow_cleanup env) (seenOffers w))
        @ (if expired_entries (dateNow_cleanup env) (seenOffers w) = [] then []
           else [LogCleaned (length (expired_entries (dateNow_cleanup env) (seenOffers w))), WriteFile])
        @ rest
      \<and> list_all (\<lambda>e. \<not> is_map_delete e) rest"
proof -
  define now where "now = dateNow_cleanup env"
  define w1 where "w1 = snd (cleanupExpiredOffers now w)"
  define w2 where "w2 = w1\<lparr>trace := trace w1 @ [GetOffers]\<rparr>"
  define newOffers where "newOffers = getNewOffers (getOffers_result env) w1"
  define w3 where "w3 = snd (send_loop env 0 newOffers w2)"
  define w4 where "w4 = snd (addOffers (dateParse env) (dateNow_add env) newOffers w3)"
  define cl where "cl = map (\<lambda>p. MapDelete (fst p)) (expired_entries now (seenOffers w))
           @ (if expired_entries now (seenOffers w) = [] then []
              else [LogCleaned (length (expired_entries now (seenOffers w))), WriteFile])"
  have c: "cleanupExpiredOffers now w = (fst (cleanupExpiredOffers now w), w1)"
    by (simp add: w1_def)
  have t1: "trace w1 = trace w @ cl"
    using cleanup_returned_world(3) [OF d c] by (simp add: cl_def)
  from send_loop_appends [of env 0 newOffers w2] obtain evs where
    w3: "w3 = w2\<lparr>trace := trace w2 @ evs\<rparr>" and evs: "list_all is_send evs"
    by (auto simp: w3_def)
  have e1: "list_all (\<lambda>e. \<not> is_map_delete e) evs"
    using evs by (rule sends_are_no_evictions)
  have e2: "list_all (\<lambda>e. \<not> is_map_delete e) (map (\<lambda>off. MapSet (offerId off)) newOffers)"
    by (rule sets_are_no_evictions)
  have t4: "trace w4 = trace w @ cl @ [GetOffers] @ evs @ map (\<lambda>off. MapSet (offerId off)) newOffers @ [WriteFile]"
    by (simp add: w4_def addOffers_world w3 w2_def t1)
  have cases: "snd (checkForNewOffersInternal env w) \<in> {w1, w2, w3, w4}"
    using cycle_world_cases_started [OF assms(2,3), of w]
    by (simp only: w1_def w2_def w3_def w4_def newOffers_def now_def)
  have step: "\<exists>rest. new_events w w' = cl @ rest \<and> list_all (\<lambda>e. \<not> is_map_delete e) rest"
    if "w' \<in> {w1, w2, w3, w4}" for w'
  proof -
    from that consider "w' = w1" | "w' = w2" | "w' = w3" | "w' = w4" by blast
    then show ?thesis
    proof cases
      case 1
      then have "new_events w w' = cl @ [] \<and> list_all (\<lambda>e. \<not> is_map_delete e) []"
        by (simp add: new_events_def t1)
      then show ?thesis by blast
    next
      case 2
      then have "new_events w w' = cl @ [GetOffers] \<and> list_all (\<lambda>e. \<not> is_map_delete e) [GetOffers]"
        by (simp add: new_events_def t1 w2_def)
      then show ?thesis by blast
    next
      case 3
      then have "new_events w w' = cl @ (GetOffers # evs) \<and> list_all (\<lambda>e. \<not> is_map_delete e) (GetOffers # evs)"
        using e1 by (simp add: new_events_def t1 w2_def w3)
      then show ?thesis by blast
    next
      case 4
      then have "new_events w w' = cl @ (GetOffers # evs @ map (\<lambda>off. MapSet (offerId off)) newOffers @ [WriteFile])
          \<and> list_all (\<lambda>e. \<not> is_map_delete e) (GetOffers # evs @ map (\<lambda>off. MapSet (offerId off)) newOffers @ [WriteFile])"
        using e1 e2 by (simp add: new_events_def t4)
      then show ?thesis by blast
    qed
  qed
  have "\<exists>rest. new_events w (snd (checkForNewOffersInternal env w)) = cl @ rest
      \<and> list_all (\<lambda>e. \<not> is_map_delete e) rest"
    using cases by (rule step)
  then show ?thesis
    by (simp only: cl_def now_def append_assoc)
qed

subsection \<open>What the cycle does not do\<close>

text \<open>
  C1 at a concrete input. The tracker holds offer 5, expired at 100 with the message
  \<open>m5\<close> still recorded; the cycle runs at 200 and offer 7 is listed. The first thing
  the cycle does is evict offer 5 and write the file; only then does it fetch the
  offers. There is no step that handles inactive offers, so eviction is not preceded by
  one, and the handle \<open>m5\<close> is dropped without a deletion.
\<close>

theorem cycle_evicts_before_fetch:
  "new_events ex_store (snd (checkForNewOffersInternal (ex_env 200 [ex_offer7]) ex_store))
     = [MapDelete (INum 5), LogCleaned 1, WriteFile, GetOffers,
        SendNotification ex_offer7 (Some ''m7''), MapSet (INum 7), WriteFile]"
  by (simp add: eval_cycle eval_examples)

text \<open>
  C2 at a concrete input. Offer 12 is tracked with the message \<open>m12\<close> and has not
  expired; every coordinator answers and none lists it. The cycle ends with offer 12
  still tracked and without a call of \<open>deleteMessage\<close>.
\<close>

theorem absent_offer_not_retracted:
  "fst (checkForNewOffersInternal (ex_env 200 []) ex_store) = NoNewOffers
   \<and> map_of (seenOffers (snd (checkForNewOffersInternal (ex_env 200 []) ex_store))) (INum 12)
       = Some \<lparr>expiresAt = TNum 900, messageId = Some ''m12'', sentAt = Some 50\<rparr>
   \<and> filter is_delete_message
        (new_events ex_store (snd (checkForNewOffersInternal (ex_env 200 []) ex_store))) = []"
  by (simp add: eval_cycle eval_examples)

text \<open>
  C7 at a concrete input. Offer 7 is new and the notifier answers the handle \<open>m7\<close>.
  The record stored for it has its own expiry and the time of \<open>addOffers\<close>, but
  \<open>messageId\<close> is \<open>null\<close>: \<open>addOffers\<close> calls \<open>markAsSeen(offer)\<close> without the
  handle. The record has no field for the coordinator.
\<close>

theorem sent_offer_record_has_no_handle:
  "SendNotification ex_offer7 (Some ''m7'')
     \<in> set (new_events ex_store (snd (checkForNewOffersInternal (ex_env 200 [ex_offer7]) ex_store)))
   \<and> map_of (seenOffers (snd (checkForNewOffersInternal (ex_env 200 [ex_offer7]) ex_store))) (INum 7)
       = Some \<lparr>expiresAt = TNum 900, messageId = None, sentAt = Some 201\<rparr>"
  by (simp add: eval_cycle eval_examples)

subsection \<open>The expiry a record gets\<close>

text \<open>
  What \<open>markAsSeen\<close> stores: the default of 24 hours when \<open>expires_at\<close> is absent or
  empty, the parsed time when the string is a date, and \<open>NaN\<close> when it is not: the
  \<open>catch\<close> that would give the default is never entered.
\<close>

lemma date_getTime_never_throws: "date_getTime dp s \<noteq> Threw e"
  by (simp add: date_getTime_def)

lemma markAsSeen_stored:
  "map_of (seenOffers (markAsSeen dp now off mid w)) (offerId off)
     = Some \<lparr>expiresAt =
               (case expires_at off of
                  None \<Rightarrow> TNum (now + 86400000)
                | Some s \<Rightarrow> if s = [] then TNum (now + 86400000)
                            else (case dp s of Some t \<Rightarrow> TNum t | None \<Rightarrow> TNaN)),
             messageId = mid, sentAt = Some now\<rparr>"
  by (simp add: markAsSeen_def map_set_def Let_def update_conv' date_getTime_def defaultMaxAge_def
      split: option.splits)

text \<open>
  C5 at a concrete input. Offer 8 has \<open>expires_at = "soon"\<close>, which is no date. The
  record stored for it has the expiry \<open>NaN\<close>, not \<open>now\<close> plus 24 hours.
\<close>

theorem unparseable_expiry_stored_as_NaN:
  "map_of (seenOffers (markAsSeen ex_dateParse 200 ex_offer8 None (fresh_tracker Missing True))) (INum 8)
     = Some \<lparr>expiresAt = TNaN, messageId = None, sentAt = Some 200\<rparr>
   \<and> TNaN \<noteq> TNum (200 + defaultMaxAge)"
  by (simp add: eval_cycle eval_examples)

section \<open>Saving and reloading\<close>

subsection \<open>Keys: \<open>parseInt\<close> inverts the printing of an integer\<close>

lemma digit_cases: "d < 10 \<Longrightarrow> d = 0 \<or> d = 1 \<or> d = 2 \<or> d = 3 \<or> d = 4 \<or> d = 5 \<or> d = 6 \<or> d = 7 \<or> d = 8 \<or> d = (9::nat)"
  by arith

lemma digit_of_digit_char: "d < 10 \<Longrightarrow> digit_of 10 (digit_char d) = Some d"
  using digit_cases [of d] by (auto simp: digit_of_def digit_char_def)

lemma digit_char_plain:
  "d < 10 \<Longrightarrow> \<not> is_space (digit_char d) \<and> digit_char d \<noteq> CHR ''-'' \<and> digit_char d \<noteq> CHR ''+''
     \<and> digit_char d \<noteq> CHR ''x'' \<and> digit_char d \<noteq> CHR ''X''"
  using digit_cases [of d] by (auto simp: digit_char_def is_space_def)

lemma read_digits_dec:
  "read_digits 10 (nat_to_dec m @ rest) acc seen
     = read_digits 10 rest (acc * 10 ^ length (nat_to_dec m) + m) True"
proof (induction m arbitrary: rest rule: nat_to_dec.induct)
  case (1 n)
  show ?case
  proof (cases "n < 10")
    case True
    then show ?thesis
      by (simp add: nat_to_dec.simps [of n] digit_of_digit_char mult.commute)
  next
    case False
    have "read_digits 10 (nat_to_dec n @ rest) acc seen
        = read_digits 10 (nat_to_dec (n div 10) @ (digit_char (n mod 10) # rest)) acc seen"
      using False by (simp add: nat_to_dec.simps [of n])
    also have "\<dots> = read_digits 10 (digit_char (n mod 10) # rest)
        (acc * 10 ^ length (nat_to_dec (n div 10)) + n div 10) True"
      using "1.IH" [OF False] by simp
    also have "\<dots> = read_digits 10 rest
        (10 * (acc * 10 ^ length (nat_to_dec (n div 10)) + n div 10) + n mod 10) True"
      by (simp add: digit_of_digit_char)
    also have "10 * (acc * 10 ^ length (nat_to_dec (n div 10)) + n div 10) + n mod 10
        = acc * 10 ^ length (nat_to_dec n) + n"
      using False by (simp add: nat_to_dec.simps [of n] algebra_simps)
    finally show ?thesis .
  qed
qed

lemma read_digits_nat_to_dec: "read_digits 10 (nat_to_dec m) 0 False = (m, True)"
  using read_digits_dec [of m "[]" 0 False] by simp

lemma nat_to_dec_shape:
  "\<exists>d cs. d < 10 \<and> nat_to_dec m = digit_char d # cs \<and> (\<forall>c \<in> set cs. \<exists>e < 10. c = digit_char e)"
proof (induction m rule: nat_to_dec.induct)
  case (1 n)
  show ?case
  proof (cases "n < 10")
    case True
    then show ?thesis by (auto simp: nat_to_dec.simps [of n])
  next
    case False
    from "1.IH" [OF False] obtain d cs where
      "d < 10" "nat_to_dec (n div 10) = digit_char d # cs" "\<forall>c \<in> set cs. \<exists>e < 10. c = digit_char e"
      by blast
    moreover have "\<exists>e < 10. digit_char (n mod 10) = digit_char e"
      by (rule exI [of _ "n mod 10"]) simp
    ultimately have "d < 10 \<and> nat_to_dec n = digit_char d # (cs @ [digit_char (n mod 10)])
        \<and> (\<forall>c \<in> set (cs @ [digit_char (n mod 10)]). \<exists>e < 10. c = digit_char e)"
      using False by (auto simp: nat_to_dec.simps [of n])
    then show ?thesis by blast
  qed
qed

lemma parseInt_nat: "parseInt (nat_to_dec m) = Some (int m)"
proof -
  from nat_to_dec_shape [of m] obtain d cs where d: "d < 10" and s: "nat_to_dec m = digit_char d # cs"
    and cs: "\<forall>c \<in> set cs. \<exists>e < 10. c = digit_char e"
    by blast
  have nohex: "(case digit_char d # cs of c # x # _ \<Rightarrow> c = CHR ''0'' \<and> (x = CHR ''x'' \<or> x = CHR ''X'') | _ \<Rightarrow> False) = False"
  proof (cases cs)
    case Nil
    then show ?thesis by simp
  next
    case (Cons x xs)
    with cs obtain e where "e < 10" "x = digit_char e" by auto
    then show ?thesis using Cons digit_char_plain [of e] by simp
  qed
  show ?thesis
    using read_digits_nat_to_dec [of m] digit_char_plain [OF d] nohex
    by (simp add: parseInt_def s [symmetric] Let_def) (simp add: s)
qed

lemma parseInt_neg: "parseInt (CHR ''-'' # nat_to_dec m) = Some (- int m)"
proof -
  from nat_to_dec_shape [of m] obtain d cs where d: "d < 10" and s: "nat_to_dec m = digit_char d # cs"
    and cs: "\<forall>c \<in> set cs. \<exists>e < 10. c = digit_char e"
    by blast
  have nohex: "(case digit_char d # cs of c # x # _ \<Rightarrow> c = CHR ''0'' \<and> (x = CHR ''x'' \<or> x = CHR ''X'') | _ \<Rightarrow> False) = False"
  proof (cases cs)
    case Nil
    then show ?thesis by simp
  next
    case (Cons x xs)
    with cs obtain e where "e < 10" "x = digit_char e" by auto
    then show ?thesis using Cons digit_char_plain [of e] by simp
  qed
  have sp: "\<not> is_space (CHR ''-'')" by (simp add: is_space_def)
  show ?thesis
    using read_digits_nat_to_dec [of m] nohex sp
    by (simp add: parseInt_def s [symmetric] Let_def)
qed

lemma parseInt_number_to_string: "parseInt (number_to_string n) = Some n"
  by (simp add: number_to_string_def parseInt_nat parseInt_neg)

lemma key_of_property_key: "key_of_property (property_key (INum n)) = INum n"
  by (simp add: key_of_property_def parseInt_number_to_string)

lemma key_of_property_not_string: "key_of_property s \<noteq> IStr t"
  by (simp add: key_of_property_def split: option.splits)

lemma property_key_inj:
  assumes "is_int_key a" "is_int_key b" "property_key a = property_key b"
  shows "a = b"
proof -
  from assms obtain m n where "a = INum m" "b = INum n"
    by (cases a; cases b) simp_all
  with assms(3) key_of_property_key [of m] key_of_property_key [of n] show ?thesis by simp
qed

text \<open>Assigning fresh keys one after the other builds the list itself.\<close>

lemma update_fresh: "k \<notin> fst ` set al \<Longrightarrow> AList.update k v al = al @ [(k, v)]"
  by (induction al) auto

lemma assign_all_fresh:
  assumes "distinct (map fst xs)" "fst ` set acc \<inter> fst ` set xs = {}"
  shows "foldl (\<lambda>obj (k, v). AList.update k v obj) acc xs = acc @ xs"
  using assms
proof (induction xs arbitrary: acc)
  case Nil
  then show ?case by simp
next
  case (Cons x xs)
  obtain k v where x: "x = (k, v)" by (cases x)
  have "k \<notin> fst ` set acc" using Cons.prems x by auto
  then have u: "AList.update k v acc = acc @ [(k, v)]" by (rule update_fresh)
  have "foldl (\<lambda>obj (k, v). AList.update k v obj) (acc @ [(k, v)]) xs = (acc @ [(k, v)]) @ xs"
    using Cons.prems x by (intro Cons.IH) auto
  then show ?case using x u by simp
qed

lemma mset_own_property_order: "mset (own_property_order obj) = mset obj"
  by (simp add: own_property_order_def)

lemma set_own_property_order: "set (own_property_order obj) = set obj"
  using mset_own_property_order [of obj] by (metis set_mset_mset)

lemma distinct_own_property_order:
  "distinct (map fst (own_property_order obj)) = distinct (map fst obj)"
proof -
  have "mset (map fst (own_property_order obj)) = mset (map fst obj)"
    using mset_own_property_order [of obj] by (metis mset_map)
  then show ?thesis by (metis distinct_count_atmost_1 set_mset_mset)
qed

subsection \<open>Loading the entries of the file\<close>

lemma load_entry_map_of:
  "map_of (seenOffers (load_entry w e)) = map_of (reload e @ seenOffers w)"
  by (cases "(w, e)" rule: load_entry.cases) (auto simp: map_set_def update_conv')

lemma load_entry_frame:
  "dataFile (load_entry w e) = dataFile w" "writable (load_entry w e) = writable w"
  by (cases "(w, e)" rule: load_entry.cases; simp add: map_set_def)+

lemma load_entry_distinct:
  "distinct (map fst (seenOffers w)) \<Longrightarrow> distinct (map fst (seenOffers (load_entry w e)))"
  by (cases "(w, e)" rule: load_entry.cases) (auto simp: map_set_def distinct_update)

lemma rev_reload: "rev (reload e) = reload e"
  by (cases e rule: reload.cases) simp_all

lemma load_all_map_of:
  "map_of (seenOffers (foldl load_entry w es)) k =
     (case map_of (rev (concat (map reload es))) k of
        Some v \<Rightarrow> Some v
      | None \<Rightarrow> map_of (seenOffers w) k)"
proof (induction es arbitrary: w)
  case Nil
  then show ?case by simp
next
  case (Cons e es)
  show ?case
    using Cons.IH [of "load_entry w e"]
    by (simp add: load_entry_map_of map_of_append map_add_def rev_reload split: option.splits)
qed

lemma load_all_distinct:
  "distinct (map fst (seenOffers w)) \<Longrightarrow> distinct (map fst (seenOffers (foldl load_entry w es)))"
  by (induction es arbitrary: w) (auto simp: load_entry_distinct)

lemma load_all_frame:
  "dataFile (foldl load_entry w es) = dataFile w" "writable (foldl load_entry w es) = writable w"
  by (induction es arbitrary: w) (simp_all add: load_entry_frame)

lemma load_all_keys:
  "fst ` set (seenOffers (foldl load_entry w es)) \<subseteq> fst ` set (seenOffers w) \<union> range key_of_property"
proof (induction es arbitrary: w)
  case Nil
  then show ?case by simp
next
  case (Cons e es)
  have "fst ` set (seenOffers (load_entry w e)) \<subseteq> fst ` set (seenOffers w) \<union> range key_of_property"
    by (cases "(w, e)" rule: load_entry.cases) (auto simp: map_set_def dom_update)
  with Cons.IH [of "load_entry w e"] show ?case by auto
qed

lemma cleanup_writable_returns:
  assumes "distinct (map fst (seenOffers w))" "writable w"
  shows "fst (cleanupExpiredOffers now w) = Returned Undefined"
    and "seenOffers (snd (cleanupExpiredOffers now w)) = live_entries now (seenOffers w)"
  using assms(2)
  by (simp_all add: cleanupExpiredOffers_def cleanup_loop_all [OF assms(1)] save_def Let_def)

lemma initialize_object_file:
  "fst (initialize t_load t_clean (fresh_tracker (Content (DObject es)) True)) = Returned ()
   \<and> seenOffers (snd (initialize t_load t_clean (fresh_tracker (Content (DObject es)) True)))
       = live_entries t_clean (seenOffers (foldl load_entry (fresh_tracker (Content (DObject es)) True)
           (own_property_order (json_parse_object es))))"
proof -
  define w0 where "w0 = fresh_tracker (Content (DObject es)) True"
  define w1 where "w1 = foldl load_entry w0 (own_property_order (json_parse_object es))"
  have d1: "distinct (map fst (seenOffers w1))"
    unfolding w1_def by (rule load_all_distinct) (simp add: w0_def fresh_tracker_def)
  have wr1: "writable w1"
    by (simp add: w1_def load_all_frame w0_def fresh_tracker_def)
  define w2 where "w2 = (if list_ex is_number (map snd (own_property_order (json_parse_object es)))
      then snd (save w1) else w1)"
  have s2: "seenOffers w2 = seenOffers w1" and wr2: "writable w2"
    using wr1 by (simp_all add: w2_def save_frame)
  have d2: "distinct (map fst (seenOffers w2))"
    using d1 s2 by simp
  have f0: "dataFile w0 = Content (DObject es)"
    by (simp add: w0_def fresh_tracker_def)
  obtain r w3 where c: "cleanupExpiredOffers t_clean w2 = (r, w3)"
    by (cases "cleanupExpiredOffers t_clean w2")
  with cleanup_writable_returns [OF d2 wr2, of t_clean]
  have r: "r = Returned Undefined" and s3: "seenOffers w3 = live_entries t_clean (seenOffers w1)"
    by (simp_all add: s2)
  have "initialize_try t_load t_clean w0 = (Returned (), w3)"
  proof (cases "list_ex is_number (map snd (own_property_order (json_parse_object es)))")
    case True
    then have "save w1 = (Returned (), w2)"
      using wr1 by (simp add: w2_def save_def Let_def)
    then show ?thesis
      using True c r by (simp add: initialize_try_def f0 w1_def [symmetric] Let_def)
  next
    case False
    then have "w2 = w1" by (simp add: w2_def)
    then show ?thesis
      using False c r by (simp add: initialize_try_def f0 w1_def [symmetric] Let_def)
  qed
  then have "initialize t_load t_clean w0 = (Returned (), w3)"
    by (simp add: initialize_def)
  then show ?thesis using s3 by (simp add: w0_def w1_def)
qed

subsection \<open>The round trip\<close>

lemma safe_int_key: "is_safe_int_key k \<Longrightarrow> is_int_key k"
  by (cases k) simp_all

lemma to_object_as_fold:
  "foldl (\<lambda>obj (k, v). AList.update (property_key k) (FObject (stringify_value v)) obj) acc m
     = foldl (\<lambda>obj (k, v). AList.update k v obj) acc
         (map (\<lambda>p. (property_key (fst p), FObject (stringify_value (snd p)))) m)"
  by (induction m arbitrary: acc) (simp_all add: case_prod_beta)

lemma to_object_ints:
  assumes d: "distinct (map fst m)" and ints: "list_all is_int_key (map fst m)"
  shows "to_object m = map (\<lambda>p. (property_key (fst p), FObject (stringify_value (snd p)))) m"
proof -
  have inj: "inj_on property_key (set (map fst m))"
    using ints by (auto simp: inj_on_def list_all_iff intro: property_key_inj)
  have "distinct (map property_key (map fst m))"
    using d inj distinct_map [of property_key "map fst m"] by blast
  then have "distinct (map fst (map (\<lambda>p. (property_key (fst p), FObject (stringify_value (snd p)))) m))"
    by (simp add: comp_def)
  then show ?thesis
    unfolding to_object_def to_object_as_fold by (intro assign_all_fresh [where acc = "[]", simplified]) 
qed

lemma stringify_stable: "json_stable v \<Longrightarrow> stringify_value v = v"
  by (cases "expiresAt v") (simp_all add: json_stable_def stringify_value_def)

lemma reload_saved:
  assumes "is_int_key (fst p)" "json_stable (snd p)"
  shows "reload (property_key (fst p), FObject (stringify_value (snd p))) = [p]"
proof -
  obtain k v where p: "p = (k, v)" by (cases p)
  with assms obtain n where k: "k = INum n" by (cases k) simp_all
  have "or_null_string (messageId v) = messageId v" "or_null_number (sentAt v) = sentAt v"
    using assms(2) p by (auto simp: json_stable_def or_null_string_def or_null_number_def split: option.splits)
  then show ?thesis
    using assms(2) p k by (simp add: stringify_stable key_of_property_def parseInt_number_to_string)
qed

lemma roundtrip_records:
  assumes d: "distinct (map fst (seenOffers w))"
    and ints: "list_all is_int_key (map fst (seenOffers w))"
    and st: "list_all json_stable (map snd (seenOffers w))"
    and wr: "writable w"
  shows "fst (initialize t_load t_clean (fresh_tracker (dataFile (snd (save w))) True)) = Returned ()"
    and "set (seenOffers (snd (initialize t_load t_clean (fresh_tracker (dataFile (snd (save w))) True))))
          = set (live_entries t_clean (seenOffers w))"
    and "distinct (map fst (seenOffers (snd (initialize t_load t_clean
            (fresh_tracker (dataFile (snd (save w))) True)))))"
proof -
  define m where "m = seenOffers w"
  define f where "f = (\<lambda>p :: jsid \<times> tracked. (property_key (fst p), FObject (stringify_value (snd p))))"
  define doc where "doc = own_property_order (map f m)"
  define parsed where "parsed = own_property_order (json_parse_object doc)"
  define w0 where "w0 = fresh_tracker (Content (DObject doc)) True"
  define w1 where "w1 = foldl load_entry w0 parsed"
  have obj: "to_object m = map f m"
    unfolding f_def using d ints by (intro to_object_ints) (simp_all add: m_def)
  have saved: "dataFile (snd (save w)) = Content (DObject doc)"
    using wr by (simp add: save_def Let_def doc_def obj m_def [symmetric])
  have dobj: "distinct (map fst (map f m))"
  proof -
    have "inj_on property_key (set (map fst m))"
      using ints by (auto simp: inj_on_def list_all_iff m_def intro: property_key_inj)
    then have "distinct (map property_key (map fst m))"
      using d distinct_map [of property_key "map fst m"] by (simp only: m_def)
    then show ?thesis by (simp add: f_def comp_def)
  qed
  have dfile: "distinct (map fst doc)"
    using dobj by (simp add: doc_def distinct_own_property_order)
  have "json_parse_object doc = doc"
    unfolding json_parse_object_def using dfile
    by (intro assign_all_fresh [where acc = "[]", simplified])
  then have sp: "set parsed = f ` set m"
    by (simp add: parsed_def doc_def set_own_property_order)
  have each: "set (reload (f p)) = {p}" if "p \<in> set m" for p
  proof -
    from that ints st have "is_int_key (fst p)" "json_stable (snd p)"
      by (auto simp: list_all_iff m_def)
    then show ?thesis using reload_saved [of p] by (simp add: f_def)
  qed
  have sL: "set (rev (concat (map reload parsed))) = set m"
    using sp each by auto
  have "map_of (seenOffers w1) k = map_of m k" for k
  proof (cases "map_of (rev (concat (map reload parsed))) k")
    case None
    then have "k \<notin> fst ` set m"
      using sL by (simp add: map_of_eq_None_iff)
    then have "map_of m k = None"
      by (simp add: map_of_eq_None_iff)
    then show ?thesis
      using None load_all_map_of [of w0 parsed k] by (simp add: w1_def w0_def fresh_tracker_def)
  next
    case (Some v)
    then have "(k, v) \<in> set m"
      using sL map_of_SomeD by fastforce
    then have "map_of m k = Some v"
      using d by (simp add: m_def)
    then show ?thesis
      using Some load_all_map_of [of w0 parsed k] by (simp add: w1_def)
  qed
  then have mo: "map_of (seenOffers w1) = map_of m" by (rule ext)
  have d1: "distinct (map fst (seenOffers w1))"
    unfolding w1_def by (rule load_all_distinct) (simp add: w0_def fresh_tracker_def)
  have s1: "set (seenOffers w1) = set m"
    using map_of_inject_set [OF d1, of m] d mo by (simp add: m_def)
  have init: "fst (initialize t_load t_clean w0) = Returned ()"
    "seenOffers (snd (initialize t_load t_clean w0)) = live_entries t_clean (seenOffers w1)"
    using initialize_object_file [of t_load t_clean doc]
    by (simp_all add: w0_def w1_def parsed_def)
  show "fst (initialize t_load t_clean (fresh_tracker (dataFile (snd (save w))) True)) = Returned ()"
    using init(1) by (simp add: saved w0_def)
  show "set (seenOffers (snd (initialize t_load t_clean (fresh_tracker (dataFile (snd (save w))) True))))
          = set (live_entries t_clean (seenOffers w))"
    using init(2) s1 by (simp add: saved w0_def live_entries_def m_def)
  show "distinct (map fst (seenOffers (snd (initialize t_load t_clean
            (fresh_tracker (dataFile (snd (save w))) True)))))"
    using init(2) d1 by (simp add: saved w0_def live_entries_distinct)
qed

lemma reloaded_keys_not_strings:
  assumes "writable w"
  shows "IStr s \<notin> getTrackedOfferIds (snd (initialize t_load t_clean (fresh_tracker (dataFile (snd (save w))) True)))"
proof -
  define doc where "doc = own_property_order (to_object (seenOffers w))"
  define w0 where "w0 = fresh_tracker (Content (DObject doc)) True"
  define w1 where "w1 = foldl load_entry w0 (own_property_order (json_parse_object doc))"
  have saved: "dataFile (snd (save w)) = Content (DObject doc)"
    using assms by (simp add: save_def Let_def doc_def)
  have res: "seenOffers (snd (initialize t_load t_clean w0)) = live_entries t_clean (seenOffers w1)"
    using initialize_object_file [of t_load t_clean doc] by (simp add: w0_def w1_def)
  have "seenOffers w0 = []"
    by (simp add: w0_def fresh_tracker_def)
  then have "fst ` set (seenOffers w1) \<subseteq> range key_of_property"
    using load_all_keys [of w0 "own_property_order (json_parse_object doc)"] by (simp add: w1_def)
  then have "fst ` set (live_entries t_clean (seenOffers w1)) \<subseteq> range key_of_property"
    using live_entries_keys [of t_clean "seenOffers w1"] by blast
  moreover have "IStr s \<notin> range key_of_property"
  proof
    assume "IStr s \<in> range key_of_property"
    then obtain t where "IStr s = key_of_property t" by (rule rangeE)
    then show False using key_of_property_not_string [of t s] by simp
  qed
  ultimately have "IStr s \<notin> fst ` set (seenOffers (snd (initialize t_load t_clean w0)))"
    unfolding res by blast
  then show ?thesis
    by (simp add: getTrackedOfferIds_def saved w0_def)
qed

text \<open>
  C10, as the code has it. A store whose identifiers are safe integers and whose records
  survive JSON is written by \<open>save\<close> and read by \<open>initialize\<close> on a fresh tracker.
  \<open>initialize\<close> ends with \<open>cleanupExpiredOffers\<close>, so what comes back is exactly the
  records that have not expired at the time of the reload, each with the fields it had;
  all of them when none has expired. Whatever the store held, no identifier that comes
  back is a string: the keys of the file go through \<open>parseInt\<close>.
\<close>

theorem save_initialize_roundtrip:
  assumes "distinct (map fst (seenOffers w))"
    and "list_all is_safe_int_key (map fst (seenOffers w))"
    and "list_all json_stable (map snd (seenOffers w))"
    and "writable w"
    and "writable w2"
  shows "fst (initialize t_load t_clean (fresh_tracker (dataFile (snd (save w))) True)) = Returned ()
    \<and> set (seenOffers (snd (initialize t_load t_clean (fresh_tracker (dataFile (snd (save w))) True))))
        = set (live_entries t_clean (seenOffers w))
    \<and> getTrackedOfferIds (snd (initialize t_load t_clean (fresh_tracker (dataFile (snd (save w))) True)))
        = fst ` set (live_entries t_clean (seenOffers w))
    \<and> IStr s \<notin> getTrackedOfferIds
          (snd (initialize t_load t_clean (fresh_tracker (dataFile (snd (save w2))) True)))"
proof -
  have ints: "list_all is_int_key (map fst (seenOffers w))"
    using assms(2) by (auto simp: list_all_iff intro: safe_int_key)
  note rt = roundtrip_records [OF assms(1) ints assms(3) assms(4), of t_load t_clean]
  have "getTrackedOfferIds (snd (initialize t_load t_clean (fresh_tracker (dataFile (snd (save w))) True)))
        = fst ` set (live_entries t_clean (seenOffers w))"
    using rt(2) by (simp add: getTrackedOfferIds_def)
  then show ?thesis
    using rt(1) rt(2) reloaded_keys_not_strings [OF assms(5), of s t_load t_clean] by simp
qed

theorem save_initialize_roundtrip_witness:
  "distinct (map fst (seenOffers ex_ints))
   \<and> list_all is_safe_int_key (map fst (seenOffers ex_ints))
   \<and> list_all json_stable (map snd (seenOffers ex_ints))
   \<and> writable ex_ints \<and> writable ex_named
   \<and> fst (initialize 60 60 (fresh_tracker (dataFile (snd (save ex_ints))) True)) = Returned ()
   \<and> set (seenOffers (snd (initialize 60 60 (fresh_tracker (dataFile (snd (save ex_ints))) True))))
        = set (seenOffers ex_ints)
   \<and> getTrackedOfferIds (snd (initialize 60 60 (fresh_tracker (dataFile (snd (save ex_ints))) True)))
        = {INum 12, INum 5, INum (- 4)}
   \<and> IStr ''abc'' \<in> getTrackedOfferIds ex_named
   \<and> IStr ''abc'' \<notin> getTrackedOfferIds
          (snd (initialize 60 60 (fresh_tracker (dataFile (snd (save ex_named))) True)))"
proof -
  have h1: "distinct (map fst (seenOffers ex_ints))"
    by (simp add: ex_ints_def)
  have h2: "list_all is_safe_int_key (map fst (seenOffers ex_ints))"
    by (simp add: ex_ints_def)
  have h3: "list_all json_stable (map snd (seenOffers ex_ints))"
    by (simp add: ex_ints_def json_stable_def)
  have h4: "writable ex_ints" by (simp add: ex_ints_def)
  have h5: "writable ex_named" by (simp add: ex_named_def)
  have live: "live_entries 60 (seenOffers ex_ints) = seenOffers ex_ints"
    by (simp add: live_entries_def ex_ints_def)
  have ids: "fst ` set (seenOffers ex_ints) = {INum 12, INum 5, INum (- 4)}"
    by (simp add: ex_ints_def)
  have named: "IStr ''abc'' \<in> getTrackedOfferIds ex_named"
    by (simp add: getTrackedOfferIds_def ex_named_def)
  show ?thesis
    using save_initialize_roundtrip [OF h1 h2 h3 h4 h5, of 60 60 "''abc''"] h1 h2 h3 h4 h5 named
    by (simp add: live ids)
qed

lemmas eval_reload = save_def initialize_def initialize_try_def json_parse_object_def
  key_of_property_def parseInt_def is_space_def cleanupExpiredOffers_def map_set_def
  map_delete_def or_null_string_def or_null_number_def getTrackedOfferIds_def fresh_tracker_def
  Let_def

text \<open>
  C10 as the claim words it fails on a record that has expired when the file is read
  back: every identifier is an integer, and offer 5 (expired at 100) is not restored by
  a reload at 200.
\<close>

theorem expired_record_not_restored:
  "getTrackedOfferIds ex_ints = {INum 12, INum 5, INum (- 4)}
   \<and> list_all is_safe_int_key (map fst (seenOffers ex_ints))
   \<and> getTrackedOfferIds (snd (initialize 200 200 (fresh_tracker (dataFile (snd (save ex_ints))) True)))
       = {INum 12, INum (- 4)}"
  by (simp add: eval_reload eval_keys ex_ints_def)

end
